theory Spec2Isabelle
  imports Main "HOL-Library.AList"
begin

section \<open>Data model of the call handler (src/handlers/callHandler.js)\<close>

text \<open>
  User identities are compared with \<open>===\<close> and used as \<open>Map\<close> keys only; they are natural
  numbers here. Call ids, socket ids and room names are strings. Negotiation payloads
  (offer, answer, chat content) are opaque to the handler and are strings.
\<close>

type_synonym userId = nat
type_synonym callId = string
type_synonym socketId = string
type_synonym payload = string

text \<open>
  A participant entry \<open>{ oderId, status, joinedAt }\<close>. The field \<open>status\<close> of the source is
  \<open>pstatus\<close> here, because the call object has a field \<open>status\<close> of its own.
\<close>

record participant =
  oderId :: userId
  pstatus :: string
  joinedAt :: nat

text \<open>
  The call object built in \<open>handleCallRequest\<close>. A JavaScript \<open>Map\<close> is an association list
  in insertion order (\<open>AList.update\<close> overwrites in place or appends, as \<open>Map.set\<close> does);
  a JavaScript \<open>Set\<close> is a list without repetitions in insertion order.
\<close>

record call =
  callId :: callId
  hostId :: userId
  hostName :: string
  participants :: "(userId \<times> participant) list"
  pendingInvites :: "userId list"
  status :: string
  startTime :: nat
  offer :: payload
  callType :: string

text \<open>What the handler reads of a socket: \<open>socket.id\<close>, \<open>socket.userId\<close>, \<open>socket.userName\<close>.\<close>

record socket =
  sid :: socketId
  userId :: userId
  userName :: "string option"

text \<open>
  The state of a \<open>CallHandler\<close>: its two maps, and of \<open>this.io\<close> the connected sockets
  (\<open>io.sockets.sockets\<close>, in insertion order) and the room membership kept by the transport
  (room name to the ids of the sockets that joined it).
\<close>

record state =
  activeCalls :: "(callId \<times> call) list"
  userCalls :: "(userId \<times> callId) list"
  sockets :: "socket list"
  rooms :: "(string \<times> socketId list) list"

text \<open>The constructor: both maps empty.\<close>

definition constructor :: "socket list \<Rightarrow> (string \<times> socketId list) list \<Rightarrow> state" where
  "constructor ss rs = \<lparr>activeCalls = [], userCalls = [], sockets = ss, rooms = rs\<rparr>"

text \<open>
  The texts of the \<open>call_error\<close> messages, one constructor per message of the source:
  "Ya estas en una llamada", "Ningun usuario esta disponible", "Llamada no encontrada",
  "No eres participante de esta llamada", "El usuario ya esta en la llamada o fue invitado",
  "El usuario esta en otra llamada", "El usuario no esta disponible",
  "No estas en esta llamada".
\<close>

datatype errmsg =
    Ya_estas_en_una_llamada
  | Ningun_usuario_esta_disponible
  | Llamada_no_encontrada
  | No_eres_participante_de_esta_llamada
  | El_usuario_ya_esta_en_la_llamada_o_fue_invitado
  | El_usuario_esta_en_otra_llamada
  | El_usuario_no_esta_disponible
  | No_estas_en_esta_llamada

text \<open>
  The outbound notifications with their payload fields, in the order of the source's object
  literals:
  \<^item> \<open>call_created\<close>: callId, status, invitedCount, callType;
  \<^item> \<open>call_incoming\<close>: callId, callerId, callerName, invitedBy (absent at creation),
    isGroupCall, participantCount, participants (absent at creation), offer, callType;
  \<^item> \<open>call_users_unavailable\<close>: userIds;
  \<^item> \<open>call_participant_joined\<close>: callId, oderId, userName, participantCount;
  \<^item> \<open>call_offer\<close>: callId, callerId, offer, participants;
  \<^item> \<open>call_answer\<close>: answer, fromUserId, callId;
  \<^item> \<open>call_participant_invited\<close>: callId, targetUserId, invitedBy, invitedByName;
  \<^item> \<open>call_participant_rejected\<close>: callId, oderId;
  \<^item> \<open>call_participant_left\<close>: callId, oderId, userName (absent on disconnection),
    participantCount, reason;
  \<^item> \<open>call_ended\<close>: callId, reason;
  \<^item> \<open>call_chat_message\<close>: callId, senderId, senderName, content, timestamp.
\<close>

datatype event =
    call_error errmsg
  | call_created callId string nat string
  | call_incoming callId userId string "string option" bool nat
      "(userId \<times> string) list option" payload string
  | call_users_unavailable "userId list"
  | call_participant_joined callId userId string nat
  | call_offer callId userId payload "userId list"
  | call_answer payload userId "callId option"
  | call_participant_invited callId userId userId string
  | call_participant_rejected callId userId
  | call_participant_left callId userId "string option" nat "string option"
  | call_ended callId string
  | call_chat_message callId userId string payload nat

text \<open>What a handler sends: pairs of the receiving socket's id and the event, in order.\<close>

type_synonym emitted = "(socketId \<times> event) list"

text \<open>
  The user directory behind \<open>getUserName\<close> and \<open>getUsersInfo\<close> (database queries with the
  placeholder "Usuario" already substituted on failure).
\<close>

record database =
  getUserName :: "userId \<Rightarrow> string"
  getUsersInfo :: "userId list \<Rightarrow> (userId \<times> string) list"

text \<open>The inbound payloads. An absent (\<open>undefined\<close>) field is \<open>None\<close>.\<close>

record call_request =
  targetUserIds :: "userId list option"
  targetUserId :: userId
  req_offer :: payload
  req_callType :: "string option"

record call_ref =
  ref_callerId :: "userId option"
  ref_callId :: "callId option"

record add_participant =
  add_callId :: callId
  add_targetUserId :: userId

record answer_send =
  ans_targetUserId :: userId
  ans_answer :: payload
  ans_callId :: "callId option"

record chat_message =
  chat_callId :: callId
  chat_content :: payload
  chat_senderName :: "string option"

section \<open>JavaScript sets and truthiness\<close>

definition set_add :: "'a \<Rightarrow> 'a list \<Rightarrow> 'a list" where
  "set_add x xs = (if x \<in> set xs then xs else xs @ [x])"

definition set_delete :: "'a \<Rightarrow> 'a list \<Rightarrow> 'a list" where
  "set_delete x xs = removeAll x xs"

definition new_Set :: "'a list \<Rightarrow> 'a list" where
  "new_Set xs = foldl (\<lambda>s x. set_add x s) [] xs"

text \<open>\<open>Map.has\<close>.\<close>

definition has :: "('k \<times> 'v) list \<Rightarrow> 'k \<Rightarrow> bool" where
  "has m k = (map_of m k \<noteq> None)"

text \<open>A string is truthy unless it is empty; \<open>undefined\<close> is falsy.\<close>

definition truthy :: "string option \<Rightarrow> bool" where
  "truthy s = (case s of None \<Rightarrow> False | Some t \<Rightarrow> t \<noteq> [])"

text \<open>\<open>x || d\<close> on an optional string.\<close>

definition or_else :: "string option \<Rightarrow> string \<Rightarrow> string" where
  "or_else s d = (case s of None \<Rightarrow> d | Some t \<Rightarrow> if t = [] then d else t)"

section \<open>The transport: sockets and rooms\<close>

definition room_of :: "callId \<Rightarrow> string" where
  "room_of cid = ''call_'' @ cid"

text \<open>The connected sockets that are members of a room, in the room's order.\<close>

definition in_room :: "state \<Rightarrow> string \<Rightarrow> socketId list" where
  "in_room st r =
     (case map_of (rooms st) r of
        None \<Rightarrow> []
      | Some ids \<Rightarrow> filter (\<lambda>i. i \<in> set (map sid (sockets st))) ids)"

text \<open>\<open>socket.emit(ev)\<close>.\<close>

definition socket_emit :: "socket \<Rightarrow> event \<Rightarrow> emitted" where
  "socket_emit sock ev = [(sid sock, ev)]"

text \<open>\<open>sockets.forEach(s => s.emit(ev))\<close>.\<close>

definition emit_each :: "socket list \<Rightarrow> event \<Rightarrow> emitted" where
  "emit_each ss ev = map (\<lambda>s. (sid s, ev)) ss"

text \<open>\<open>io.to(room).emit(ev)\<close>: every connected socket of the room.\<close>

definition io_to_emit :: "state \<Rightarrow> string \<Rightarrow> event \<Rightarrow> emitted" where
  "io_to_emit st r ev = map (\<lambda>i. (i, ev)) (in_room st r)"

text \<open>\<open>socket.to(room).emit(ev)\<close>: every connected socket of the room but \<open>socket\<close> itself.\<close>

definition socket_to_emit :: "state \<Rightarrow> socket \<Rightarrow> string \<Rightarrow> event \<Rightarrow> emitted" where
  "socket_to_emit st sock r ev =
     map (\<lambda>i. (i, ev)) (filter (\<lambda>i. i \<noteq> sid sock) (in_room st r))"

definition socket_join :: "socket \<Rightarrow> string \<Rightarrow> state \<Rightarrow> state" where
  "socket_join sock r st =
     st\<lparr>rooms := AList.update r
          (set_add (sid sock) (case map_of (rooms st) r of None \<Rightarrow> [] | Some ids \<Rightarrow> ids))
          (rooms st)\<rparr>"

definition socket_leave :: "socket \<Rightarrow> string \<Rightarrow> state \<Rightarrow> state" where
  "socket_leave sock r st =
     (case map_of (rooms st) r of
        None \<Rightarrow> st
      | Some ids \<Rightarrow> st\<lparr>rooms := AList.update r (set_delete (sid sock) ids) (rooms st)\<rparr>)"

section \<open>The handler's functions\<close>

text \<open>
  \<open>generateCallId\<close>: "call_" followed by the decimal text of \<open>Date.now()\<close>, "_" and nine
  base-36 digits of \<open>Math.random()\<close>; the two texts are inputs.
\<close>

definition generateCallId :: "string \<Rightarrow> string \<Rightarrow> callId" where
  "generateCallId stamp rnd = ''call_'' @ stamp @ ''_'' @ rnd"

definition getUserSockets :: "state \<Rightarrow> userId \<Rightarrow> socket list" where
  "getUserSockets st u = filter (\<lambda>s. userId s = u) (sockets st)"

definition isUserInCall :: "state \<Rightarrow> userId \<Rightarrow> bool" where
  "isUserInCall st u = has (userCalls st) u"

definition getUserCall :: "state \<Rightarrow> userId \<Rightarrow> (callId \<times> call) option" where
  "getUserCall st u =
     (case map_of (userCalls st) u of
        None \<Rightarrow> None
      | Some cid \<Rightarrow> if cid = [] then None
                    else map_option (Pair cid) (map_of (activeCalls st) cid))"

text \<open>
  The classification loop of \<open>handleCallRequest\<close>: the accumulators are the arrays
  \<open>unavailable\<close> and \<open>available\<close>, each \<open>push\<close> appends.
\<close>

fun classify ::
  "state \<Rightarrow> userId list \<Rightarrow> userId list \<times> (userId \<times> socket list) list
     \<Rightarrow> userId list \<times> (userId \<times> socket list) list" where
  "classify st [] acc = acc"
| "classify st (targetId # rest) (unavailable, available) =
     (if isUserInCall st targetId then classify st rest (unavailable @ [targetId], available)
      else let targetSockets = getUserSockets st targetId in
        if length targetSockets > 0
        then classify st rest (unavailable, available @ [(targetId, targetSockets)])
        else classify st rest (unavailable @ [targetId], available))"

definition targets_of :: "call_request \<Rightarrow> userId list" where
  "targets_of data =
     (case targetUserIds data of Some ts \<Rightarrow> ts | None \<Rightarrow> [targetUserId data])"

text \<open>
  \<open>handleCallRequest\<close>. \<open>now\<close> is the reading of \<open>Date.now()\<close> stored in the call, \<open>stamp\<close> and
  \<open>rnd\<close> are the texts that make the call id.
\<close>

definition handleCallRequest ::
  "database \<Rightarrow> nat \<Rightarrow> string \<Rightarrow> string \<Rightarrow> socket \<Rightarrow> call_request \<Rightarrow> state
     \<Rightarrow> state \<times> emitted" where
  "handleCallRequest db now stamp rnd sock data st =
     (let callerId = userId sock;
          targets = targets_of data
      in if isUserInCall st callerId
         then (st, socket_emit sock (call_error Ya_estas_en_una_llamada))
         else
           let (unavailable, available) = classify st targets ([], []) in
           if length available = 0
           then (st, socket_emit sock (call_error Ningun_usuario_esta_disponible))
           else
             let cid = generateCallId stamp rnd;
                 callerName = getUserName db callerId;
                 c = \<lparr>callId = cid, hostId = callerId, hostName = callerName,
                      participants =
                        [(callerId, \<lparr>oderId = callerId, pstatus = ''connected'',
                                     joinedAt = now\<rparr>)],
                      pendingInvites = new_Set (map fst available),
                      status = ''ringing'', startTime = now, offer = req_offer data,
                      callType = or_else (req_callType data) ''audio''\<rparr>;
                 st1 = st\<lparr>activeCalls := AList.update cid c (activeCalls st),
                          userCalls := AList.update callerId cid (userCalls st)\<rparr>;
                 st2 = socket_join sock (room_of cid) st1
             in (st2,
                 socket_emit sock
                   (call_created cid ''ringing'' (length available) (callType c))
                 @ concat (map (\<lambda>(u, ss). emit_each ss
                     (call_incoming cid callerId callerName None (length targets > 1)
                        (length targets + 1) None (req_offer data) (callType c))) available)
                 @ (if length unavailable > 0
                    then socket_emit sock (call_users_unavailable unavailable) else [])))"

text \<open>
  The lookup that opens \<open>handleCallAccept\<close> and \<open>handleCallReject\<close>: by call id when the
  payload carries a truthy one that is a key of \<open>activeCalls\<close>, and otherwise the first call,
  in the map's order, whose host is \<open>callerId\<close> and that has the acting user among its
  pending invites. The result is the entry found: its key and the call object.
\<close>

definition lookupCall ::
  "state \<Rightarrow> call_ref \<Rightarrow> userId \<Rightarrow> (callId \<times> call) option" where
  "lookupCall st data u =
     (case (if truthy (ref_callId data)
            then map_option (Pair (the (ref_callId data)))
                   (map_of (activeCalls st) (the (ref_callId data)))
            else None) of
        Some kc \<Rightarrow> Some kc
      | None \<Rightarrow>
          find (\<lambda>(k, c). Some (hostId c) = ref_callerId data \<and> u \<in> set (pendingInvites c))
            (activeCalls st))"

definition handleCallAccept ::
  "database \<Rightarrow> nat \<Rightarrow> socket \<Rightarrow> call_ref \<Rightarrow> state \<Rightarrow> state \<times> emitted" where
  "handleCallAccept db now sock data st =
     (let u = userId sock in
      case lookupCall st data u of
        None \<Rightarrow> (st, socket_emit sock (call_error Llamada_no_encontrada))
      | Some (k, c) \<Rightarrow>
          let c' = c\<lparr>pendingInvites := set_delete u (pendingInvites c),
                     participants := AList.update u
                       \<lparr>oderId = u, pstatus = ''connecting'', joinedAt = now\<rparr>
                       (participants c),
                     status := ''active''\<rparr>;
              st1 = st\<lparr>activeCalls := AList.update k c' (activeCalls st),
                       userCalls := AList.update u (callId c) (userCalls st)\<rparr>;
              st2 = socket_join sock (room_of (callId c)) st1;
              name = getUserName db u
          in (st2,
              io_to_emit st2 (room_of (callId c))
                (call_participant_joined (callId c) u name (length (participants c')))
              @ socket_emit sock
                  (call_offer (callId c) (hostId c) (offer c) (map fst (participants c')))))"

definition handleCallAnswerSend ::
  "socket \<Rightarrow> answer_send \<Rightarrow> state \<Rightarrow> state \<times> emitted" where
  "handleCallAnswerSend sock data st =
     (let u = userId sock;
          activeCallId = (if truthy (ans_callId data) then ans_callId data
                          else map_of (userCalls st) u);
          out = emit_each (getUserSockets st (ans_targetUserId data))
                  (call_answer (ans_answer data) u activeCallId);
          found = (if truthy (ans_callId data)
                   then map_option (Pair (the (ans_callId data)))
                          (map_of (activeCalls st) (the (ans_callId data)))
                   else getUserCall st u)
      in case found of
           None \<Rightarrow> (st, out)
         | Some (k, c) \<Rightarrow>
             (case map_of (participants c) u of
                None \<Rightarrow> (st, out)
              | Some p \<Rightarrow>
                  (st\<lparr>activeCalls := AList.update k
                        (c\<lparr>participants := AList.update u (p\<lparr>pstatus := ''connected''\<rparr>)
                             (participants c)\<rparr>)
                        (activeCalls st)\<rparr>, out)))"

definition handleAddParticipant ::
  "database \<Rightarrow> socket \<Rightarrow> add_participant \<Rightarrow> state \<Rightarrow> state \<times> emitted" where
  "handleAddParticipant db sock data st =
     (let cid = add_callId data; target = add_targetUserId data; u = userId sock in
      case map_of (activeCalls st) cid of
        None \<Rightarrow> (st, socket_emit sock (call_error Llamada_no_encontrada))
      | Some c \<Rightarrow>
          if \<not> has (participants c) u
          then (st, socket_emit sock (call_error No_eres_participante_de_esta_llamada))
          else if has (participants c) target \<or> target \<in> set (pendingInvites c)
          then (st, socket_emit sock
                      (call_error El_usuario_ya_esta_en_la_llamada_o_fue_invitado))
          else if isUserInCall st target
          then (st, socket_emit sock (call_error El_usuario_esta_en_otra_llamada))
          else
            let targetSockets = getUserSockets st target in
            if length targetSockets = 0
            then (st, socket_emit sock (call_error El_usuario_no_esta_disponible))
            else
              let c' = c\<lparr>pendingInvites := set_add target (pendingInvites c)\<rparr>;
                  st1 = st\<lparr>activeCalls := AList.update cid c' (activeCalls st)\<rparr>;
                  inviterName = getUserName db u;
                  participantNames = getUsersInfo db (map fst (participants c'))
              in (st1,
                  emit_each targetSockets
                    (call_incoming cid (hostId c') (hostName c') (Some inviterName) True
                       (length (participants c') + 1) (Some participantNames) (offer c')
                       (or_else (Some (callType c')) ''audio''))
                  @ io_to_emit st1 (room_of cid)
                      (call_participant_invited cid target u inviterName)))"

text \<open>
  The loop of \<open>endCall\<close> over the participants: the user's index entry is deleted and each
  of the user's sockets leaves the room.
\<close>

fun endCall_participants :: "userId list \<Rightarrow> string \<Rightarrow> state \<Rightarrow> state" where
  "endCall_participants [] r st = st"
| "endCall_participants (u # us) r st =
     endCall_participants us r
       (fold (\<lambda>s. socket_leave s r) (getUserSockets st u)
          (st\<lparr>userCalls := AList.delete u (userCalls st)\<rparr>))"

definition endCall :: "callId \<Rightarrow> string \<Rightarrow> state \<Rightarrow> state \<times> emitted" where
  "endCall cid reason st =
     (case map_of (activeCalls st) cid of
        None \<Rightarrow> (st, [])
      | Some c \<Rightarrow>
          let out = io_to_emit st (room_of cid) (call_ended cid reason);
              st1 = endCall_participants (map fst (participants c)) (room_of cid) st
          in (st1\<lparr>activeCalls := AList.delete cid (activeCalls st1)\<rparr>, out))"

definition handleCallReject :: "socket \<Rightarrow> call_ref \<Rightarrow> state \<Rightarrow> state \<times> emitted" where
  "handleCallReject sock data st =
     (let u = userId sock in
      case lookupCall st data u of
        None \<Rightarrow> (st, [])
      | Some (k, c) \<Rightarrow>
          let c' = c\<lparr>pendingInvites := set_delete u (pendingInvites c)\<rparr>;
              st1 = st\<lparr>activeCalls := AList.update k c' (activeCalls st)\<rparr>;
              out = io_to_emit st1 (room_of (callId c'))
                      (call_participant_rejected (callId c') u)
          in if length (participants c') = 1 \<and> length (pendingInvites c') = 0
             then (let (st2, out2) = endCall (callId c') ''rejected'' st1
                   in (st2, out @ out2))
             else (st1, out))"

definition handleCallEnd ::
  "socket \<Rightarrow> string option \<Rightarrow> state \<Rightarrow> state \<times> emitted" where
  "handleCallEnd sock reason st =
     (let u = userId sock in
      case map_of (userCalls st) u of
        None \<Rightarrow> (st, [])
      | Some cid \<Rightarrow>
          if cid = [] then (st, [])
          else
            (case map_of (activeCalls st) cid of
               None \<Rightarrow> (st, [])
             | Some c \<Rightarrow>
                 let c' = c\<lparr>participants := AList.delete u (participants c)\<rparr>;
                     st1 = st\<lparr>activeCalls := AList.update cid c' (activeCalls st),
                              userCalls := AList.delete u (userCalls st)\<rparr>;
                     st2 = socket_leave sock (room_of cid) st1;
                     name = or_else (userName sock) ''Usuario'';
                     out = io_to_emit st2 (room_of cid)
                             (call_participant_left cid u (Some name)
                                (length (participants c')) reason)
                 in if u = hostId c' \<or> length (participants c') < 1
                    then (let (st3, out3) =
                                endCall cid (if u = hostId c' then ''host_left'' else ''ended'')
                                  st2
                          in (st3, out @ out3))
                    else (st2, out)))"

definition handleCallChatMessage ::
  "nat \<Rightarrow> socket \<Rightarrow> chat_message \<Rightarrow> state \<Rightarrow> state \<times> emitted" where
  "handleCallChatMessage now sock data st =
     (let u = userId sock; cid = chat_callId data; userCallId = map_of (userCalls st) u in
      if \<not> truthy userCallId \<or> userCallId \<noteq> Some cid
      then (st, socket_emit sock (call_error No_estas_en_esta_llamada))
      else
        (case map_of (activeCalls st) cid of
           None \<Rightarrow> (st, [])
         | Some c \<Rightarrow>
             (st, socket_to_emit st sock (room_of cid)
                    (call_chat_message cid u (or_else (chat_senderName data) ''Usuario'')
                       (chat_content data) now))))"

definition handleDisconnection :: "socket \<Rightarrow> state \<Rightarrow> state \<times> emitted" where
  "handleDisconnection sock st =
     (let u = userId sock in
      case map_of (userCalls st) u of
        None \<Rightarrow> (st, [])
      | Some cid \<Rightarrow>
          if cid = [] then (st, [])
          else
            (case map_of (activeCalls st) cid of
               None \<Rightarrow> (st, [])
             | Some c \<Rightarrow>
                 let remainingSockets =
                       filter (\<lambda>s. sid s \<noteq> sid sock) (getUserSockets st u)
                 in if length remainingSockets > 0 then (st, [])
                    else
                      let c' = c\<lparr>participants := AList.delete u (participants c)\<rparr>;
                          st1 = st\<lparr>activeCalls := AList.update cid c' (activeCalls st),
                                   userCalls := AList.delete u (userCalls st)\<rparr>;
                          out = io_to_emit st1 (room_of cid)
                                  (call_participant_left cid u None
                                     (length (participants c')) (Some ''disconnected''))
                      in if u = hostId c' \<or> length (participants c') < 1
                         then (let (st2, out2) = endCall cid ''disconnected'' st1
                               in (st2, out @ out2))
                         else (st1, out)))"

section \<open>Vocabulary of the properties\<close>

text \<open>
  A target of a call request is unavailable when it is already in a call or has no live
  connection.
\<close>

definition unavailable_target :: "state \<Rightarrow> userId \<Rightarrow> bool" where
  "unavailable_target st t = (isUserInCall st t \<or> getUserSockets st t = [])"

fun is_call_error :: "event \<Rightarrow> bool" where
  "is_call_error (call_error m) = True"
| "is_call_error ev = False"

text \<open>
  The validation checks of the four validated events, in the words of the error taxonomy:
  which check, if any, rejects the event in a given state.
\<close>

definition request_rejection :: "state \<Rightarrow> socket \<Rightarrow> call_request \<Rightarrow> errmsg option" where
  "request_rejection st sock data =
     (if isUserInCall st (userId sock) then Some Ya_estas_en_una_llamada
      else if list_all (unavailable_target st) (targets_of data)
      then Some Ningun_usuario_esta_disponible
      else None)"

definition accept_rejection :: "state \<Rightarrow> socket \<Rightarrow> call_ref \<Rightarrow> errmsg option" where
  "accept_rejection st sock data =
     (if lookupCall st data (userId sock) = None then Some Llamada_no_encontrada else None)"

definition add_rejection :: "state \<Rightarrow> socket \<Rightarrow> add_participant \<Rightarrow> errmsg option" where
  "add_rejection st sock data =
     (case map_of (activeCalls st) (add_callId data) of
        None \<Rightarrow> Some Llamada_no_encontrada
      | Some c \<Rightarrow>
          if map_of (participants c) (userId sock) = None
          then Some No_eres_participante_de_esta_llamada
          else if map_of (participants c) (add_targetUserId data) \<noteq> None
                  \<or> add_targetUserId data \<in> set (pendingInvites c)
          then Some El_usuario_ya_esta_en_la_llamada_o_fue_invitado
          else if isUserInCall st (add_targetUserId data)
          then Some El_usuario_esta_en_otra_llamada
          else if getUserSockets st (add_targetUserId data) = []
          then Some El_usuario_no_esta_disponible
          else None)"

definition chat_rejection :: "state \<Rightarrow> socket \<Rightarrow> chat_message \<Rightarrow> errmsg option" where
  "chat_rejection st sock data =
     (if map_of (userCalls st) (userId sock) = Some (chat_callId data) \<and> chat_callId data \<noteq> []
      then None else Some No_estas_en_esta_llamada)"

text \<open>
  Failing closed: a rejected event sends exactly one \<open>call_error\<close>, to the initiating socket,
  and returns the state it was given; an event that is not rejected sends no \<open>call_error\<close>.
\<close>

definition fails_closed ::
  "state \<Rightarrow> socket \<Rightarrow> errmsg option \<Rightarrow> state \<times> emitted \<Rightarrow> bool" where
  "fails_closed st sock rej res =
     (case rej of
        Some m \<Rightarrow> res = (st, [(sid sock, call_error m)])
      | None \<Rightarrow> \<not> list_ex (\<lambda>(i, ev). is_call_error ev) (snd res))"

text \<open>
  Single occupancy: the index has one entry per user at most, and every entry \<open>(u, cid)\<close>
  names a session of the registry that has \<open>u\<close> among its participants with a live status.
\<close>

definition valid_status :: "participant \<Rightarrow> bool" where
  "valid_status p = (pstatus p = ''connecting'' \<or> pstatus p = ''connected'')"

definition occupies :: "state \<Rightarrow> userId \<times> callId \<Rightarrow> bool" where
  "occupies st e =
     (case map_of (activeCalls st) (snd e) of
        None \<Rightarrow> False
      | Some c \<Rightarrow> (case map_of (participants c) (fst e) of
                     None \<Rightarrow> False
                   | Some p \<Rightarrow> valid_status p))"

definition single_occupancy :: "state \<Rightarrow> bool" where
  "single_occupancy st =
     (distinct (map fst (userCalls st)) \<and> list_all (occupies st) (userCalls st))"

text \<open>
  The registry holds one session per key, each under its own \<open>callId\<close>, and no key is the
  empty string.
\<close>

definition registry_ok :: "state \<Rightarrow> bool" where
  "registry_ok st =
     (distinct (map fst (activeCalls st)) \<and>
      list_all (\<lambda>(k, c). callId c = k \<and> k \<noteq> []) (activeCalls st))"

definition call_inv :: "state \<Rightarrow> bool" where
  "call_inv st = (registry_ok st \<and> single_occupancy st)"

text \<open>The same two conditions on the maps that the two association lists denote.\<close>

definition idx_ok :: "(callId \<rightharpoonup> call) \<Rightarrow> (userId \<rightharpoonup> callId) \<Rightarrow> bool" where
  "idx_ok A U =
     ((\<forall>k c. A k = Some c \<longrightarrow> callId c = k \<and> k \<noteq> []) \<and>
      (\<forall>u cid. U u = Some cid \<longrightarrow>
         (\<exists>c p. A cid = Some c \<and> map_of (participants c) u = Some p \<and> valid_status p)))"

text \<open>Disjointness of a session: no participant is also a pending invitee.\<close>

definition disjoint :: "call \<Rightarrow> bool" where
  "disjoint c = list_all (\<lambda>u. u \<notin> set (pendingInvites c)) (map fst (participants c))"

text \<open>
  The states the handler can be in: it starts with both maps empty; between events the
  transport may change the connected sockets and the rooms in any way (connections come
  and go, other handlers join rooms); every event runs its handler to completion. A call
  request draws an id that is not a key of the registry (ids are unique tokens).
\<close>

inductive reachable :: "state \<Rightarrow> bool" where
  r_init: "reachable (constructor ss rs)"
| r_transport: "reachable st \<Longrightarrow> reachable (st\<lparr>sockets := ss, rooms := rs\<rparr>)"
| r_request: "reachable st \<Longrightarrow> \<not> has (activeCalls st) (generateCallId stamp rnd) \<Longrightarrow>
    reachable (fst (handleCallRequest db now stamp rnd sock rq st))"
| r_accept: "reachable st \<Longrightarrow> reachable (fst (handleCallAccept db now sock rf st))"
| r_answer: "reachable st \<Longrightarrow> reachable (fst (handleCallAnswerSend sock an st))"
| r_add: "reachable st \<Longrightarrow> reachable (fst (handleAddParticipant db sock ad st))"
| r_reject: "reachable st \<Longrightarrow> reachable (fst (handleCallReject sock rf st))"
| r_end: "reachable st \<Longrightarrow> reachable (fst (handleCallEnd sock reason st))"
| r_chat: "reachable st \<Longrightarrow> reachable (fst (handleCallChatMessage now sock ch st))"
| r_disconnect: "reachable st \<Longrightarrow> reachable (fst (handleDisconnection sock st))"

section \<open>A concrete scene for the examples\<close>

text \<open>
  Three users: user 1 with one connection, user 2 with two connections (two devices),
  user 3 with one connection. User 4 has no connection. User 1 calls; the generated call
  id is "call_5_x".
\<close>

definition db0 :: database where
  "db0 = \<lparr>getUserName = (\<lambda>u. ''Usuario''), getUsersInfo = (\<lambda>us. [])\<rparr>"

definition sA :: socket where
  "sA = \<lparr>sid = ''a'', userId = 1, userName = None\<rparr>"

definition sB :: socket where
  "sB = \<lparr>sid = ''b'', userId = 2, userName = None\<rparr>"

definition sB2 :: socket where
  "sB2 = \<lparr>sid = ''b2'', userId = 2, userName = None\<rparr>"

definition sC :: socket where
  "sC = \<lparr>sid = ''c'', userId = 3, userName = None\<rparr>"

definition st0 :: state where
  "st0 = constructor [sA, sB, sB2, sC] []"

definition req :: "userId list \<Rightarrow> call_request" where
  "req ts = \<lparr>targetUserIds = Some ts, targetUserId = 0, req_offer = ''o'',
             req_callType = None\<rparr>"

definition by_id :: "callId \<Rightarrow> call_ref" where
  "by_id cid = \<lparr>ref_callerId = None, ref_callId = Some cid\<rparr>"

definition hi :: chat_message where
  "hi = \<lparr>chat_callId = ''call_5_x'', chat_content = ''hi'', chat_senderName = None\<rparr>"

text \<open>User 1 calls user 2; user 2 accepts on one device, then on the other.\<close>

definition st1 :: state where
  "st1 = fst (handleCallRequest db0 5 ''5'' ''x'' sA (req [2]) st0)"

definition st2 :: state where
  "st2 = fst (handleCallAccept db0 6 sB (by_id ''call_5_x'') st1)"

definition st3 :: state where
  "st3 = fst (handleCallAccept db0 7 sB2 (by_id ''call_5_x'') st2)"

text \<open>The session in these three states.\<close>

definition call1 :: "userId list \<Rightarrow> call" where
  "call1 invited = \<lparr>callId = ''call_5_x'', hostId = 1, hostName = ''Usuario'',
      participants = [(1, \<lparr>oderId = 1, pstatus = ''connected'', joinedAt = 5\<rparr>)],
      pendingInvites = invited, status = ''ringing'', startTime = 5, offer = ''o'',
      callType = ''audio''\<rparr>"

definition call2 :: "nat \<Rightarrow> call" where
  "call2 t = \<lparr>callId = ''call_5_x'', hostId = 1, hostName = ''Usuario'',
      participants = [(1, \<lparr>oderId = 1, pstatus = ''connected'', joinedAt = 5\<rparr>),
                      (2, \<lparr>oderId = 2, pstatus = ''connecting'', joinedAt = t\<rparr>)],
      pendingInvites = [], status = ''active'', startTime = 5, offer = ''o'',
      callType = ''audio''\<rparr>"

text \<open>
  A second scene: while the call of user 1 rings user 2, user 3 calls user 2 as well (call id
  "call_6_y"); user 2 accepts the call of user 1.
\<close>

definition stY :: state where
  "stY = fst (handleCallRequest db0 6 ''6'' ''y'' sC (req [2]) st1)"

definition stYX :: state where
  "stYX = fst (handleCallAccept db0 7 sB (by_id ''call_5_x'') stY)"

definition callY :: "(userId \<times> participant) list \<Rightarrow> userId list \<Rightarrow> string \<Rightarrow> call" where
  "callY joined invited s = \<lparr>callId = ''call_6_y'', hostId = 3, hostName = ''Usuario'',
      participants = (3, \<lparr>oderId = 3, pstatus = ''connected'', joinedAt = 6\<rparr>) # joined,
      pendingInvites = invited, status = s, startTime = 6, offer = ''o'',
      callType = ''audio''\<rparr>"

text \<open>
  A third scene: user 3 calls user 1 (call id "call_5_y"); before answering, user 1 calls
  user 2 (call id "call_6_x"); then user 1 accepts the call of user 3.
\<close>

definition stT1 :: state where
  "stT1 = fst (handleCallRequest db0 5 ''5'' ''y'' sC (req [1]) st0)"

definition stT2 :: state where
  "stT2 = fst (handleCallRequest db0 6 ''6'' ''x'' sA (req [2]) stT1)"

definition stT3 :: state where
  "stT3 = fst (handleCallAccept db0 7 sA (by_id ''call_5_y'') stT2)"

definition callT :: "(userId \<times> participant) list \<Rightarrow> userId list \<Rightarrow> string \<Rightarrow> call" where
  "callT joined invited s = \<lparr>callId = ''call_5_y'', hostId = 3, hostName = ''Usuario'',
      participants = (3, \<lparr>oderId = 3, pstatus = ''connected'', joinedAt = 5\<rparr>) # joined,
      pendingInvites = invited, status = s, startTime = 5, offer = ''o'',
      callType = ''audio''\<rparr>"

definition callH :: call where
  "callH = \<lparr>callId = ''call_6_x'', hostId = 1, hostName = ''Usuario'',
      participants = [(1, \<lparr>oderId = 1, pstatus = ''connected'', joinedAt = 6\<rparr>)],
      pendingInvites = [2], status = ''ringing'', startTime = 6, offer = ''o'',
      callType = ''audio''\<rparr>"

section \<open>Facts about the helper functions\<close>

lemma socket_join_fields [simp]:
  "activeCalls (socket_join s r st) = activeCalls st"
  "userCalls (socket_join s r st) = userCalls st"
  "sockets (socket_join s r st) = sockets st"
  by (simp_all add: socket_join_def)

lemma socket_leave_fields [simp]:
  "activeCalls (socket_leave s r st) = activeCalls st"
  "userCalls (socket_leave s r st) = userCalls st"
  "sockets (socket_leave s r st) = sockets st"
  by (simp_all add: socket_leave_def split: option.split)

lemma fold_socket_leave_fields [simp]:
  "activeCalls (fold (\<lambda>s. socket_leave s r) ss st) = activeCalls st"
  "userCalls (fold (\<lambda>s. socket_leave s r) ss st) = userCalls st"
  "sockets (fold (\<lambda>s. socket_leave s r) ss st) = sockets st"
  by (induction ss arbitrary: st) simp_all

lemma in_room_upd [simp]:
  "in_room (st\<lparr>activeCalls := a\<rparr>) r = in_room st r"
  "in_room (st\<lparr>userCalls := b\<rparr>) r = in_room st r"
  by (simp_all add: in_room_def split: option.split)

lemma io_to_emit_upd [simp]:
  "io_to_emit (st\<lparr>activeCalls := a\<rparr>) r ev = io_to_emit st r ev"
  "io_to_emit (st\<lparr>userCalls := b\<rparr>) r ev = io_to_emit st r ev"
  by (simp_all add: io_to_emit_def)

lemma getUserSockets_upd [simp]:
  "getUserSockets (st\<lparr>activeCalls := a\<rparr>) u = getUserSockets st u"
  "getUserSockets (st\<lparr>userCalls := b\<rparr>) u = getUserSockets st u"
  "getUserSockets (fold (\<lambda>s. socket_leave s r) ss st) u = getUserSockets st u"
  by (simp_all add: getUserSockets_def)

text \<open>A \<open>Set\<close> built from an array holds the array's elements, each once.\<close>

lemma set_new_Set_aux: "set (foldl (\<lambda>s x. set_add x s) acc xs) = set acc \<union> set xs"
  by (induction xs arbitrary: acc) (auto simp: set_add_def)

lemma distinct_new_Set_aux:
  "distinct acc \<Longrightarrow> distinct (foldl (\<lambda>s x. set_add x s) acc xs)"
  by (induction xs arbitrary: acc) (auto simp: set_add_def)

lemma set_new_Set [simp]: "set (new_Set xs) = set xs"
  by (simp add: new_Set_def set_new_Set_aux)

lemma distinct_new_Set [simp]: "distinct (new_Set xs)"
  by (simp add: new_Set_def distinct_new_Set_aux)

text \<open>\<open>Map.set\<close> on a new key appends; on a key that is there it keeps the size.\<close>

lemma update_existing_length:
  "map_of al k = Some w \<Longrightarrow> length (AList.update k v al) = length al"
  by (induction al) (auto split: if_splits)

lemma update_fresh: "map_of al k = None \<Longrightarrow> AList.update k v al = al @ [(k, v)]"
  by (induction al) (auto split: if_splits)

text \<open>The classification loop computes two filters of the target list.\<close>

lemma classify_filter:
  "classify st ts (un, av) =
     (un @ filter (unavailable_target st) ts,
      av @ map (\<lambda>t. (t, getUserSockets st t)) (filter (\<lambda>t. \<not> unavailable_target st t) ts))"
  by (induction ts arbitrary: un av) (auto simp: unavailable_target_def Let_def)

text \<open>What \<open>endCall\<close> does to the two maps.\<close>

lemma endCall_participants_fields [simp]:
  "activeCalls (endCall_participants us r st) = activeCalls st"
  "sockets (endCall_participants us r st) = sockets st"
  by (induction us r st rule: endCall_participants.induct) simp_all

lemma endCall_participants_userCalls:
  "userCalls (endCall_participants us r st) = AList.restrict (- set us) (userCalls st)"
proof (induction us r st rule: endCall_participants.induct)
  case (1 r st)
  then show ?case by (simp add: AList.restrict_eq)
next
  case (2 u us r st)
  then show ?case
    by (simp add: AList.restrict_eq AList.delete_eq) (rule filter_cong, auto)
qed

lemma endCall_Some:
  "map_of (activeCalls st) cid = Some c \<Longrightarrow>
   endCall cid reason st =
     ((endCall_participants (map fst (participants c)) (room_of cid) st)
        \<lparr>activeCalls := AList.delete cid (activeCalls st)\<rparr>,
      io_to_emit st (room_of cid) (call_ended cid reason))"
  by (simp add: endCall_def Let_def)

section \<open>The scene, evaluated\<close>

lemma st0_eq:
  "st0 = \<lparr>activeCalls = [], userCalls = [], sockets = [sA, sB, sB2, sC], rooms = []\<rparr>"
  by (simp add: st0_def constructor_def)

lemma st1_eq:
  "st1 = \<lparr>activeCalls = [(''call_5_x'', call1 [2])],
          userCalls = [(1, ''call_5_x'')],
          sockets = [sA, sB, sB2, sC],
          rooms = [(''call_call_5_x'', [''a''])]\<rparr>"
  by (simp add: st1_def call1_def handleCallRequest_def targets_of_def isUserInCall_def
      has_def getUserSockets_def generateCallId_def room_of_def socket_join_def new_Set_def
      set_add_def or_else_def Let_def st0_eq sA_def sB_def sB2_def sC_def db0_def req_def)

lemma st2_eq:
  "st2 = \<lparr>activeCalls = [(''call_5_x'', call2 6)],
          userCalls = [(1, ''call_5_x''), (2, ''call_5_x'')],
          sockets = [sA, sB, sB2, sC],
          rooms = [(''call_call_5_x'', [''a'', ''b''])]\<rparr>"
  by (simp add: st2_def st1_eq call1_def call2_def handleCallAccept_def lookupCall_def
      by_id_def truthy_def set_delete_def Let_def socket_join_def room_of_def set_add_def
      sB_def)

lemma st3_eq:
  "st3 = \<lparr>activeCalls = [(''call_5_x'', call2 7)],
          userCalls = [(1, ''call_5_x''), (2, ''call_5_x'')],
          sockets = [sA, sB, sB2, sC],
          rooms = [(''call_call_5_x'', [''a'', ''b'', ''b2''])]\<rparr>"
  by (simp add: st3_def st2_eq call2_def handleCallAccept_def lookupCall_def by_id_def
      truthy_def set_delete_def Let_def socket_join_def room_of_def set_add_def sB2_def)

lemma st1_room: "in_room st1 (room_of ''call_5_x'') = [''a'']"
  by (simp add: st1_eq in_room_def room_of_def sA_def)

lemma st1_lookup:
  "lookupCall st1 (by_id ''call_5_x'') u = Some (''call_5_x'', call1 [2])"
  by (simp add: lookupCall_def by_id_def truthy_def st1_eq)

lemma st1_user1: "isUserInCall st1 (userId sA)"
  by (simp add: st1_eq isUserInCall_def has_def sA_def)

lemma st2_user2: "map_of (userCalls st2) (userId sB) = Some ''call_5_x''"
  by (simp add: st2_eq sB_def)

lemma st2_call: "map_of (activeCalls st2) ''call_5_x'' = Some (call2 6)"
  by (simp add: st2_eq)

lemma st2_user1: "map_of (userCalls st2) (userId sA) = Some ''call_5_x''"
  by (simp add: st2_eq sA_def)

lemma st2_room: "in_room st2 (room_of ''call_5_x'') = [''a'', ''b'']"
  by (simp add: st2_eq in_room_def room_of_def sA_def sB_def)

lemma stY_eq:
  "stY = \<lparr>activeCalls = [(''call_5_x'', call1 [2]), (''call_6_y'', callY [] [2] ''ringing'')],
          userCalls = [(1, ''call_5_x''), (3, ''call_6_y'')],
          sockets = [sA, sB, sB2, sC],
          rooms = [(''call_call_5_x'', [''a'']), (''call_call_6_y'', [''c''])]\<rparr>"
  by (simp add: stY_def st1_eq callY_def handleCallRequest_def targets_of_def isUserInCall_def
      has_def getUserSockets_def generateCallId_def room_of_def socket_join_def new_Set_def
      set_add_def or_else_def Let_def sA_def sB_def sB2_def sC_def db0_def req_def)

lemma stYX_eq:
  "stYX = \<lparr>activeCalls = [(''call_5_x'', call2 7), (''call_6_y'', callY [] [2] ''ringing'')],
          userCalls = [(1, ''call_5_x''), (3, ''call_6_y''), (2, ''call_5_x'')],
          sockets = [sA, sB, sB2, sC],
          rooms = [(''call_call_5_x'', [''a'', ''b'']), (''call_call_6_y'', [''c''])]\<rparr>"
  by (simp add: stYX_def stY_eq call1_def call2_def handleCallAccept_def lookupCall_def
      by_id_def truthy_def set_delete_def Let_def socket_join_def room_of_def set_add_def
      sB_def)

lemma stT1_eq:
  "stT1 = \<lparr>activeCalls = [(''call_5_y'', callT [] [1] ''ringing'')],
          userCalls = [(3, ''call_5_y'')],
          sockets = [sA, sB, sB2, sC],
          rooms = [(''call_call_5_y'', [''c''])]\<rparr>"
  by (simp add: stT1_def callT_def handleCallRequest_def targets_of_def isUserInCall_def
      has_def getUserSockets_def generateCallId_def room_of_def socket_join_def new_Set_def
      set_add_def or_else_def Let_def st0_eq sA_def sB_def sB2_def sC_def db0_def req_def)

lemma stT2_eq:
  "stT2 = \<lparr>activeCalls = [(''call_5_y'', callT [] [1] ''ringing''), (''call_6_x'', callH)],
          userCalls = [(3, ''call_5_y''), (1, ''call_6_x'')],
          sockets = [sA, sB, sB2, sC],
          rooms = [(''call_call_5_y'', [''c'']), (''call_call_6_x'', [''a''])]\<rparr>"
  by (simp add: stT2_def stT1_eq callT_def callH_def handleCallRequest_def targets_of_def
      isUserInCall_def has_def getUserSockets_def generateCallId_def room_of_def
      socket_join_def new_Set_def set_add_def or_else_def Let_def sA_def sB_def sB2_def
      sC_def db0_def req_def)

lemma stT3_eq:
  "stT3 = \<lparr>activeCalls =
            [(''call_5_y'',
              callT [(1, \<lparr>oderId = 1, pstatus = ''connecting'', joinedAt = 7\<rparr>)] [] ''active''),
             (''call_6_x'', callH)],
          userCalls = [(3, ''call_5_y''), (1, ''call_5_y'')],
          sockets = [sA, sB, sB2, sC],
          rooms = [(''call_call_5_y'', [''c'', ''a'']), (''call_call_6_x'', [''a''])]\<rparr>"
  by (simp add: stT3_def stT2_eq callT_def callH_def handleCallAccept_def lookupCall_def
      by_id_def truthy_def set_delete_def Let_def socket_join_def room_of_def set_add_def
      sA_def)

lemma stT2_invited:
  "lookupCall stT2 (by_id ''call_5_y'') (userId sA) =
     Some (''call_5_y'', callT [] [1] ''ringing'') \<and>
   userId sA \<in> set (pendingInvites (callT [] [1] ''ringing''))"
  by (simp add: stT2_eq lookupCall_def by_id_def truthy_def callT_def sA_def)

lemma reachable_stT1: "reachable stT1"
  unfolding stT1_def st0_def
  by (rule r_request [OF r_init]) (simp add: has_def constructor_def)

lemma reachable_stT3: "reachable stT3"
  unfolding stT3_def stT2_def
  by (rule r_accept, rule r_request [OF reachable_stT1])
    (simp add: has_def stT1_eq generateCallId_def)

text \<open>The states of the scenes are reached by the events that define them.\<close>

lemma reachable_st1: "reachable st1"
  unfolding st1_def st0_def
  by (rule r_request [OF r_init]) (simp add: has_def constructor_def)

lemma reachable_stYX: "reachable stYX"
  unfolding stYX_def stY_def
  by (rule r_accept, rule r_request [OF reachable_st1])
    (simp add: has_def st1_eq generateCallId_def)

lemma reachable_st2: "reachable st2"
  unfolding st2_def by (intro r_accept reachable_st1)

lemma reachable_st3: "reachable st3"
  unfolding st3_def by (intro r_accept reachable_st2)

section \<open>The invariant of the two maps\<close>

lemma registry_okD:
  "registry_ok st \<Longrightarrow> map_of (activeCalls st) k = Some c \<Longrightarrow> callId c = k \<and> k \<noteq> []"
  by (auto simp: registry_ok_def list_all_iff dest: map_of_SomeD)

lemma occupiesD:
  assumes "single_occupancy st" and "map_of (userCalls st) u = Some cid"
  shows "\<exists>c p. map_of (activeCalls st) cid = Some c \<and> map_of (participants c) u = Some p \<and>
         valid_status p"
proof -
  from assms(2) have "(u, cid) \<in> set (userCalls st)" by (rule map_of_SomeD)
  with assms(1) have "occupies st (u, cid)" by (simp add: single_occupancy_def list_all_iff)
  then show ?thesis by (auto simp: occupies_def split: option.splits)
qed

lemma single_occupancyI:
  assumes "distinct (map fst (userCalls st))"
    and "\<And>u cid. map_of (userCalls st) u = Some cid \<Longrightarrow>
          \<exists>c p. map_of (activeCalls st) cid = Some c \<and> map_of (participants c) u = Some p \<and>
                valid_status p"
  shows "single_occupancy st"
  unfolding single_occupancy_def list_all_iff
proof (intro conjI ballI)
  fix e assume "e \<in> set (userCalls st)"
  with assms(1) have "map_of (userCalls st) (fst e) = Some (snd e)"
    by simp
  from assms(2) [OF this] show "occupies st e"
    by (auto simp: occupies_def)
qed (rule assms(1))

lemma registry_okI:
  assumes "distinct (map fst (activeCalls st))"
    and "\<And>k c. map_of (activeCalls st) k = Some c \<Longrightarrow> callId c = k \<and> k \<noteq> []"
  shows "registry_ok st"
  unfolding registry_ok_def list_all_iff
proof (intro conjI ballI)
  fix e assume "e \<in> set (activeCalls st)"
  with assms(1) have "map_of (activeCalls st) (fst e) = Some (snd e)"
    by simp
  from assms(2) [OF this] show "case e of (k, c) \<Rightarrow> callId c = k \<and> k \<noteq> []"
    by (cases e) simp
qed (rule assms(1))

text \<open>The invariant, read through the two maps.\<close>

lemma call_inv_iff:
  "call_inv st \<longleftrightarrow>
     distinct (map fst (activeCalls st)) \<and> distinct (map fst (userCalls st)) \<and>
     idx_ok (map_of (activeCalls st)) (map_of (userCalls st))"
  (is "?L \<longleftrightarrow> ?R")
proof
  assume l: ?L
  then have r: "registry_ok st" and s: "single_occupancy st" by (simp_all add: call_inv_def)
  have "idx_ok (map_of (activeCalls st)) (map_of (userCalls st))"
    unfolding idx_ok_def using registry_okD [OF r] occupiesD [OF s] by blast
  with r s show ?R by (simp add: registry_ok_def single_occupancy_def)
next
  assume r: ?R
  then have i: "idx_ok (map_of (activeCalls st)) (map_of (userCalls st))" by simp
  have "registry_ok st"
    using r i by (intro registry_okI) (auto simp: idx_ok_def)
  moreover have "single_occupancy st"
  proof (rule single_occupancyI)
    show "distinct (map fst (userCalls st))" using r by simp
  next
    fix u cid assume "map_of (userCalls st) u = Some cid"
    with i show "\<exists>c p. map_of (activeCalls st) cid = Some c \<and>
        map_of (participants c) u = Some p \<and> valid_status p"
      unfolding idx_ok_def by blast
  qed
  ultimately show ?L by (simp add: call_inv_def)
qed

lemma find_SomeD: "find P xs = Some x \<Longrightarrow> x \<in> set xs \<and> P x"
  by (induction xs) (auto split: if_splits)

lemma lookupCall_Some:
  assumes "distinct (map fst (activeCalls st))" and "lookupCall st d u = Some (k, c)"
  shows "map_of (activeCalls st) k = Some c"
proof (cases "truthy (ref_callId d) \<and> map_of (activeCalls st) (the (ref_callId d)) \<noteq> None")
  case True
  with assms(2) show ?thesis by (auto simp: lookupCall_def)
next
  case False
  with assms(2) have "find (\<lambda>(k, c). Some (hostId c) = ref_callerId d \<and> u \<in> set (pendingInvites c))
      (activeCalls st) = Some (k, c)"
    by (auto simp: lookupCall_def split: if_splits option.splits)
  then have "(k, c) \<in> set (activeCalls st)" by (auto dest: find_SomeD)
  with assms(1) show ?thesis by simp
qed

text \<open>The invariant does not read the sockets or the rooms.\<close>

lemma call_inv_cong:
  "activeCalls st' = activeCalls st \<Longrightarrow> userCalls st' = userCalls st \<Longrightarrow>
   call_inv st' = call_inv st"
  by (simp add: call_inv_iff)

lemma idx_okI:
  assumes "\<And>k c. A k = Some c \<Longrightarrow> callId c = k \<and> k \<noteq> []"
    and "\<And>u cid. U u = Some cid \<Longrightarrow>
          \<exists>c p. A cid = Some c \<and> map_of (participants c) u = Some p \<and> valid_status p"
  shows "idx_ok A U"
  unfolding idx_ok_def using assms by blast

lemma idx_ok_key: "idx_ok A U \<Longrightarrow> A k = Some c \<Longrightarrow> callId c = k \<and> k \<noteq> []"
  unfolding idx_ok_def by blast

lemma idx_ok_occ:
  "idx_ok A U \<Longrightarrow> U u = Some cid \<Longrightarrow>
   \<exists>c p. A cid = Some c \<and> map_of (participants c) u = Some p \<and> valid_status p"
  unfolding idx_ok_def by blast

text \<open>
  One session of the registry is replaced under its id; every index entry of the new index
  either names that session, whose new value has the user as a live participant, or was
  an entry of the old index for another session.
\<close>

lemma idx_ok_replace:
  assumes ok: "idx_ok A U" and Ak: "A k = Some c" and id: "callId c' = callId c"
    and idx: "\<And>v cid. U' v = Some cid \<Longrightarrow>
        (cid = k \<and> (\<exists>q. map_of (participants c') v = Some q \<and> valid_status q)) \<or>
        (cid \<noteq> k \<and> U v = Some cid)"
  shows "idx_ok (A(k \<mapsto> c')) U'"
proof (rule idx_okI)
  fix k' c'' assume a: "(A(k \<mapsto> c')) k' = Some c''"
  show "callId c'' = k' \<and> k' \<noteq> []"
  proof (cases "k' = k")
    case True
    with a have "c'' = c'" by simp
    with id idx_ok_key [OF ok Ak] True show ?thesis by simp
  next
    case False
    with a have "A k' = Some c''" by simp
    then show ?thesis by (rule idx_ok_key [OF ok])
  qed
next
  fix v cid assume a: "U' v = Some cid"
  from idx [OF a] show "\<exists>c p. (A(k \<mapsto> c')) cid = Some c \<and>
      map_of (participants c) v = Some p \<and> valid_status p"
  proof
    assume "cid = k \<and> (\<exists>q. map_of (participants c') v = Some q \<and> valid_status q)"
    then obtain q where "cid = k" "map_of (participants c') v = Some q" "valid_status q"
      by blast
    then show ?thesis by simp
  next
    assume b: "cid \<noteq> k \<and> U v = Some cid"
    then obtain c2 p where "A cid = Some c2" "map_of (participants c2) v = Some p"
      "valid_status p"
      using idx_ok_occ [OF ok] by blast
    with b show ?thesis by simp
  qed
qed

text \<open>A session changes, its id and its participants do not.\<close>

lemma call_inv_same_participants:
  assumes "call_inv st" and Ak: "map_of (activeCalls st) k = Some c"
    and id: "callId c' = callId c" and ps: "participants c' = participants c"
  shows "call_inv (st\<lparr>activeCalls := AList.update k c' (activeCalls st)\<rparr>)"
proof -
  from assms(1) have ok: "idx_ok (map_of (activeCalls st)) (map_of (userCalls st))"
    and d: "distinct (map fst (activeCalls st))" "distinct (map fst (userCalls st))"
    by (simp_all add: call_inv_iff)
  have "idx_ok ((map_of (activeCalls st))(k \<mapsto> c')) (map_of (userCalls st))"
  proof (rule idx_ok_replace [OF ok Ak id])
    fix v cid assume a: "map_of (userCalls st) v = Some cid"
    show "(cid = k \<and> (\<exists>q. map_of (participants c') v = Some q \<and> valid_status q)) \<or>
        (cid \<noteq> k \<and> map_of (userCalls st) v = Some cid)"
    proof (cases "cid = k")
      case True
      with idx_ok_occ [OF ok a] Ak ps show ?thesis by auto
    next
      case False
      with a show ?thesis by simp
    qed
  qed
  with d show ?thesis by (simp add: call_inv_iff update_conv' distinct_update)
qed

text \<open>A participant's entry is written; the index may name the session for that user.\<close>

lemma call_inv_join:
  assumes "call_inv st" and Ak: "map_of (activeCalls st) k = Some c"
    and id: "callId c' = callId c"
    and ps: "participants c' = AList.update u p (participants c)"
    and vp: "valid_status p"
  shows "call_inv (st\<lparr>activeCalls := AList.update k c' (activeCalls st),
                      userCalls := AList.update u (callId c) (userCalls st)\<rparr>)"
    and "map_of (participants c) u \<noteq> None \<Longrightarrow>
         call_inv (st\<lparr>activeCalls := AList.update k c' (activeCalls st)\<rparr>)"
proof -
  from assms(1) have ok: "idx_ok (map_of (activeCalls st)) (map_of (userCalls st))"
    and d: "distinct (map fst (activeCalls st))" "distinct (map fst (userCalls st))"
    by (simp_all add: call_inv_iff)
  have kc: "callId c = k" using idx_ok_key [OF ok Ak] by simp
  have keep: "\<exists>q. map_of (participants c') v = Some q \<and> valid_status q"
    if "map_of (userCalls st) v = Some k" for v
  proof -
    from idx_ok_occ [OF ok that] Ak obtain q where
      "map_of (participants c) v = Some q" "valid_status q" by auto
    with ps vp show ?thesis by (simp add: update_conv')
  qed
  have "idx_ok ((map_of (activeCalls st))(k \<mapsto> c')) ((map_of (userCalls st))(u \<mapsto> callId c))"
  proof (rule idx_ok_replace [OF ok Ak id])
    fix v cid assume a: "((map_of (userCalls st))(u \<mapsto> callId c)) v = Some cid"
    show "(cid = k \<and> (\<exists>q. map_of (participants c') v = Some q \<and> valid_status q)) \<or>
        (cid \<noteq> k \<and> map_of (userCalls st) v = Some cid)"
    proof (cases "v = u")
      case True
      with a kc have "cid = k" by simp
      moreover have "map_of (participants c') v = Some p"
        using True ps by (simp add: update_conv')
      ultimately show ?thesis using vp by blast
    next
      case False
      with a have b: "map_of (userCalls st) v = Some cid" by simp
      show ?thesis
      proof (cases "cid = k")
        case True
        with keep b show ?thesis by blast
      next
        case False
        with b show ?thesis by simp
      qed
    qed
  qed
  with d show "call_inv (st\<lparr>activeCalls := AList.update k c' (activeCalls st),
                      userCalls := AList.update u (callId c) (userCalls st)\<rparr>)"
    by (simp add: call_inv_iff update_conv' distinct_update)
  have "idx_ok ((map_of (activeCalls st))(k \<mapsto> c')) (map_of (userCalls st))"
  proof (rule idx_ok_replace [OF ok Ak id])
    fix v cid assume b: "map_of (userCalls st) v = Some cid"
    show "(cid = k \<and> (\<exists>q. map_of (participants c') v = Some q \<and> valid_status q)) \<or>
        (cid \<noteq> k \<and> map_of (userCalls st) v = Some cid)"
    proof (cases "cid = k")
      case True
      with keep b show ?thesis by blast
    next
      case False
      with b show ?thesis by simp
    qed
  qed
  with d show "call_inv (st\<lparr>activeCalls := AList.update k c' (activeCalls st)\<rparr>)"
    by (simp add: call_inv_iff update_conv' distinct_update)
qed

text \<open>A user leaves the session the index names.\<close>

lemma call_inv_leave:
  assumes "call_inv st" and Uu: "map_of (userCalls st) u = Some cid"
    and Ak: "map_of (activeCalls st) cid = Some c"
  shows "call_inv (st\<lparr>activeCalls :=
                        AList.update cid (c\<lparr>participants := AList.delete u (participants c)\<rparr>)
                          (activeCalls st),
                      userCalls := AList.delete u (userCalls st)\<rparr>)"
proof -
  let ?c' = "c\<lparr>participants := AList.delete u (participants c)\<rparr>"
  from assms(1) have ok: "idx_ok (map_of (activeCalls st)) (map_of (userCalls st))"
    and d: "distinct (map fst (activeCalls st))" "distinct (map fst (userCalls st))"
    by (simp_all add: call_inv_iff)
  have id: "callId ?c' = callId c" by simp
  have "idx_ok ((map_of (activeCalls st))(cid \<mapsto> ?c')) ((map_of (userCalls st))(u := None))"
  proof (rule idx_ok_replace [OF ok Ak id])
    fix v k assume a: "((map_of (userCalls st))(u := None)) v = Some k"
    then have vu: "v \<noteq> u" and b: "map_of (userCalls st) v = Some k"
      by (auto split: if_splits)
    show "(k = cid \<and> (\<exists>q. map_of (participants ?c') v = Some q \<and> valid_status q)) \<or>
        (k \<noteq> cid \<and> map_of (userCalls st) v = Some k)"
    proof (cases "k = cid")
      case True
      with idx_ok_occ [OF ok b] Ak obtain q where
        "map_of (participants c) v = Some q" "valid_status q" by auto
      with vu True show ?thesis by (simp add: delete_conv')
    next
      case False
      with b show ?thesis by simp
    qed
  qed
  with d show ?thesis
    by (simp add: call_inv_iff update_conv' delete_conv' distinct_update distinct_delete)
qed

text \<open>A new session under a fresh id, with its host in it.\<close>

lemma call_inv_create:
  assumes "call_inv st" and fresh: "map_of (activeCalls st) cid = None"
    and id: "callId c = cid" "cid \<noteq> []" and pu: "map_of (participants c) u = Some p"
    and vp: "valid_status p"
  shows "call_inv (st\<lparr>activeCalls := AList.update cid c (activeCalls st),
                      userCalls := AList.update u cid (userCalls st)\<rparr>)"
proof -
  from assms(1) have ok: "idx_ok (map_of (activeCalls st)) (map_of (userCalls st))"
    and d: "distinct (map fst (activeCalls st))" "distinct (map fst (userCalls st))"
    by (simp_all add: call_inv_iff)
  have "idx_ok ((map_of (activeCalls st))(cid \<mapsto> c)) ((map_of (userCalls st))(u \<mapsto> cid))"
  proof (rule idx_okI)
    fix k c' assume "((map_of (activeCalls st))(cid \<mapsto> c)) k = Some c'"
    then show "callId c' = k \<and> k \<noteq> []"
      using id idx_ok_key [OF ok] by (auto split: if_splits)
  next
    fix v k assume a: "((map_of (userCalls st))(u \<mapsto> cid)) v = Some k"
    show "\<exists>c' q. ((map_of (activeCalls st))(cid \<mapsto> c)) k = Some c' \<and>
        map_of (participants c') v = Some q \<and> valid_status q"
    proof (cases "v = u")
      case True
      with a pu vp show ?thesis by simp
    next
      case False
      with a have b: "map_of (userCalls st) v = Some k" by simp
      from idx_ok_occ [OF ok b] obtain c2 q where
        c2: "map_of (activeCalls st) k = Some c2" "map_of (participants c2) v = Some q"
        "valid_status q" by blast
      with fresh have "k \<noteq> cid" by auto
      with c2 show ?thesis by simp
    qed
  qed
  with d show ?thesis by (simp add: call_inv_iff update_conv' distinct_update)
qed

text \<open>Ending a call.\<close>

lemma call_inv_endCall:
  assumes "call_inv st"
  shows "call_inv (fst (endCall cid reason st))"
proof (cases "map_of (activeCalls st) cid")
  case None
  with assms show ?thesis by (simp add: endCall_def)
next
  case (Some c)
  let ?A = "map_of (activeCalls st)" and ?U = "map_of (userCalls st)"
  let ?K = "set (map fst (participants c))"
  from assms(1) have ok: "idx_ok ?A ?U"
    and d: "distinct (map fst (activeCalls st))" "distinct (map fst (userCalls st))"
    by (simp_all add: call_inv_iff)
  have "idx_ok (?A(cid := None)) (?U |` (- ?K))"
  proof (rule idx_okI)
    fix k c' assume "(?A(cid := None)) k = Some c'"
    then show "callId c' = k \<and> k \<noteq> []"
      using idx_ok_key [OF ok] by (auto split: if_splits)
  next
    fix v k assume a: "(?U |` (- ?K)) v = Some k"
    then have nv: "v \<notin> ?K" and b: "?U v = Some k"
      by (auto simp: restrict_map_def split: if_splits)
    from idx_ok_occ [OF ok b] obtain c2 q where
      c2: "?A k = Some c2" "map_of (participants c2) v = Some q" "valid_status q" by blast
    have "k \<noteq> cid"
    proof
      assume "k = cid"
      with c2 Some have "map_of (participants c) v = Some q" by simp
      then have "v \<in> ?K" by (auto dest: map_of_SomeD intro: rev_image_eqI)
      with nv show False by simp
    qed
    with c2 show "\<exists>c' q. (?A(cid := None)) k = Some c' \<and>
        map_of (participants c') v = Some q \<and> valid_status q"
      by simp
  qed
  with d show ?thesis
    unfolding endCall_Some [OF Some]
    by (simp add: call_inv_iff delete_conv' distinct_delete endCall_participants_userCalls
          restr_conv' distinct_restr)
qed

lemma call_inv_handleCallRequest:
  assumes "call_inv st" and "\<not> has (activeCalls st) (generateCallId stamp rnd)"
  shows "call_inv (fst (handleCallRequest db now stamp rnd sock rq st))"
proof -
  obtain un av where cl: "classify st (targets_of rq) ([], []) = (un, av)"
    by (cases "classify st (targets_of rq) ([], [])")
  let ?cid = "generateCallId stamp rnd"
  let ?p = "\<lparr>oderId = userId sock, pstatus = ''connected'', joinedAt = now\<rparr>"
  let ?c = "\<lparr>callId = ?cid, hostId = userId sock, hostName = getUserName db (userId sock),
      participants = [(userId sock, ?p)], pendingInvites = new_Set (map fst av),
      status = ''ringing'', startTime = now, offer = req_offer rq,
      callType = or_else (req_callType rq) ''audio''\<rparr>"
  let ?st1 = "st\<lparr>activeCalls := AList.update ?cid ?c (activeCalls st),
                  userCalls := AList.update (userId sock) ?cid (userCalls st)\<rparr>"
  have fresh: "map_of (activeCalls st) ?cid = None" using assms(2) by (simp add: has_def)
  have "call_inv ?st1"
    by (rule call_inv_create [OF assms(1) fresh, of ?c "userId sock" ?p])
      (simp_all add: valid_status_def generateCallId_def)
  then have "call_inv (socket_join sock (room_of ?cid) ?st1)"
    by (simp add: call_inv_cong [of "socket_join sock (room_of ?cid) ?st1" ?st1])
  with assms(1) show ?thesis
    by (simp add: handleCallRequest_def Let_def cl)
qed

lemma call_inv_handleCallAccept:
  assumes "call_inv st"
  shows "call_inv (fst (handleCallAccept db now sock rf st))"
proof (cases "lookupCall st rf (userId sock)")
  case None
  with assms show ?thesis by (simp add: handleCallAccept_def)
next
  case (Some kc)
  obtain k c where kc: "kc = (k, c)" by (cases kc)
  from assms have d: "distinct (map fst (activeCalls st))" by (simp add: call_inv_iff)
  from Some kc have Ak: "map_of (activeCalls st) k = Some c"
    by (auto intro: lookupCall_Some [OF d])
  let ?u = "userId sock"
  let ?p = "\<lparr>oderId = ?u, pstatus = ''connecting'', joinedAt = now\<rparr>"
  let ?c' = "c\<lparr>pendingInvites := set_delete ?u (pendingInvites c),
               participants := AList.update ?u ?p (participants c), status := ''active''\<rparr>"
  let ?st1 = "st\<lparr>activeCalls := AList.update k ?c' (activeCalls st),
                  userCalls := AList.update ?u (callId c) (userCalls st)\<rparr>"
  have "call_inv ?st1"
    by (rule call_inv_join(1) [OF assms Ak, of ?c' ?u ?p]) (simp_all add: valid_status_def)
  then have "call_inv (socket_join sock (room_of (callId c)) ?st1)"
    by (simp add: call_inv_cong [of "socket_join sock (room_of (callId c)) ?st1" ?st1])
  with Some kc show ?thesis
    by (simp add: handleCallAccept_def Let_def)
qed

lemma call_inv_handleCallAnswerSend:
  assumes "call_inv st"
  shows "call_inv (fst (handleCallAnswerSend sock an st))"
proof -
  let ?u = "userId sock"
  let ?found = "if truthy (ans_callId an)
       then map_option (Pair (the (ans_callId an)))
              (map_of (activeCalls st) (the (ans_callId an)))
       else getUserCall st ?u"
  show ?thesis
  proof (cases ?found)
    case None
    with assms show ?thesis by (simp add: handleCallAnswerSend_def Let_def)
  next
    case (Some kc)
    obtain k c where kc: "kc = (k, c)" by (cases kc)
    from Some kc have Ak: "map_of (activeCalls st) k = Some c"
      by (auto simp: getUserCall_def split: if_splits option.splits)
    show ?thesis
    proof (cases "map_of (participants c) ?u")
      case None
      with assms Some kc show ?thesis by (simp add: handleCallAnswerSend_def Let_def)
    next
      case (Some p)
      let ?p = "p\<lparr>pstatus := ''connected''\<rparr>"
      let ?c' = "c\<lparr>participants := AList.update ?u ?p (participants c)\<rparr>"
      have "call_inv (st\<lparr>activeCalls := AList.update k ?c' (activeCalls st)\<rparr>)"
        by (rule call_inv_join(2) [OF assms Ak, of ?c' ?u ?p])
          (simp_all add: valid_status_def Some)
      with \<open>?found = Some kc\<close> kc Some show ?thesis
        by (simp add: handleCallAnswerSend_def Let_def)
    qed
  qed
qed

lemma call_inv_handleAddParticipant:
  assumes "call_inv st"
  shows "call_inv (fst (handleAddParticipant db sock ad st))"
proof (cases "map_of (activeCalls st) (add_callId ad)")
  case None
  with assms show ?thesis by (simp add: handleAddParticipant_def Let_def)
next
  case (Some c)
  let ?c' = "c\<lparr>pendingInvites := set_add (add_targetUserId ad) (pendingInvites c)\<rparr>"
  have "call_inv (st\<lparr>activeCalls := AList.update (add_callId ad) ?c' (activeCalls st)\<rparr>)"
    by (rule call_inv_same_participants [OF assms Some]) simp_all
  with assms Some show ?thesis
    by (simp add: handleAddParticipant_def Let_def)
qed

lemma call_inv_handleCallReject:
  assumes "call_inv st"
  shows "call_inv (fst (handleCallReject sock rf st))"
proof (cases "lookupCall st rf (userId sock)")
  case None
  with assms show ?thesis by (simp add: handleCallReject_def)
next
  case (Some kc)
  obtain k c where kc: "kc = (k, c)" by (cases kc)
  from assms have d: "distinct (map fst (activeCalls st))" by (simp add: call_inv_iff)
  from Some kc have Ak: "map_of (activeCalls st) k = Some c"
    by (auto intro: lookupCall_Some [OF d])
  let ?c' = "c\<lparr>pendingInvites := set_delete (userId sock) (pendingInvites c)\<rparr>"
  let ?st1 = "st\<lparr>activeCalls := AList.update k ?c' (activeCalls st)\<rparr>"
  have 1: "call_inv (st\<lparr>activeCalls := AList.update k (c\<lparr>pendingInvites := ps\<rparr>)
      (activeCalls st)\<rparr>)" for ps
    by (rule call_inv_same_participants [OF assms Ak]) simp_all
  from Some kc show ?thesis
    by (auto simp: handleCallReject_def Let_def case_prod_unfold intro!: call_inv_endCall 1)
qed

lemma call_inv_handleCallEnd:
  assumes "call_inv st"
  shows "call_inv (fst (handleCallEnd sock reason st))"
proof (cases "map_of (userCalls st) (userId sock)")
  case None
  with assms show ?thesis by (simp add: handleCallEnd_def)
next
  case (Some cid)
  show ?thesis
  proof (cases "map_of (activeCalls st) cid")
    case None
    with assms Some show ?thesis by (simp add: handleCallEnd_def Let_def)
  next
    case c: (Some c)
    let ?u = "userId sock"
    let ?c' = "c\<lparr>participants := AList.delete ?u (participants c)\<rparr>"
    let ?st1 = "st\<lparr>activeCalls := AList.update cid ?c' (activeCalls st),
                    userCalls := AList.delete ?u (userCalls st)\<rparr>"
    let ?st2 = "socket_leave sock (room_of cid) ?st1"
    have "call_inv ?st1" by (rule call_inv_leave [OF assms Some c])
    then have 1: "call_inv ?st2" by (simp add: call_inv_cong [of ?st2 ?st1])
    have 2: "call_inv (fst (endCall cid r ?st2))" for r
      by (rule call_inv_endCall [OF 1])
    from assms Some c 1 2 show ?thesis
      by (simp add: handleCallEnd_def Let_def case_prod_unfold)
  qed
qed

lemma call_inv_handleCallChatMessage:
  "call_inv st \<Longrightarrow> call_inv (fst (handleCallChatMessage now sock ch st))"
  by (simp add: handleCallChatMessage_def Let_def split: option.split)

lemma call_inv_handleDisconnection:
  assumes "call_inv st"
  shows "call_inv (fst (handleDisconnection sock st))"
proof (cases "map_of (userCalls st) (userId sock)")
  case None
  with assms show ?thesis by (simp add: handleDisconnection_def)
next
  case (Some cid)
  show ?thesis
  proof (cases "map_of (activeCalls st) cid")
    case None
    with assms Some show ?thesis by (simp add: handleDisconnection_def Let_def)
  next
    case c: (Some c)
    let ?u = "userId sock"
    let ?c' = "c\<lparr>participants := AList.delete ?u (participants c)\<rparr>"
    let ?st1 = "st\<lparr>activeCalls := AList.update cid ?c' (activeCalls st),
                    userCalls := AList.delete ?u (userCalls st)\<rparr>"
    have 1: "call_inv ?st1" by (rule call_inv_leave [OF assms Some c])
    have 2: "call_inv (fst (endCall cid ''disconnected'' ?st1))"
      by (rule call_inv_endCall [OF 1])
    from assms Some c 1 2 show ?thesis
      by (simp add: handleDisconnection_def Let_def case_prod_unfold)
  qed
qed

lemma call_inv_reachable: "reachable st \<Longrightarrow> call_inv st"
proof (induction rule: reachable.induct)
  case r_init
  show ?case
    by (simp add: call_inv_def registry_ok_def single_occupancy_def constructor_def)
next
  case r_transport
  then show ?case by (simp add: call_inv_iff)
qed (simp_all add: call_inv_handleCallRequest call_inv_handleCallAccept
       call_inv_handleCallAnswerSend call_inv_handleAddParticipant call_inv_handleCallReject
       call_inv_handleCallEnd call_inv_handleCallChatMessage call_inv_handleDisconnection)

section \<open>Creating a call\<close>

text \<open>
  C4. Partial-success call creation. For a start-call request by a caller who is not in a
  call, with a non-empty target list: the loop classifies each target on its own, as
  unavailable exactly when it is already in a call or has no live connection. If every target
  is unavailable the caller's socket gets the error and the state is unchanged. Otherwise the
  registry gets the session under the generated id (appended as a new entry when the id is
  not yet a key, and then the only change to the registry), in state ringing, with the
  caller as host and only participant and the available targets as pending invites; and the
  caller's socket gets the unavailable notice, listing the unavailable targets, exactly when
  there is one.
\<close>

theorem handleCallRequest_partial_success:
  assumes "\<not> isUserInCall st (userId sock)" and "targets_of data \<noteq> []"
  shows "classify st (targets_of data) ([], []) =
           (filter (unavailable_target st) (targets_of data),
            map (\<lambda>t. (t, getUserSockets st t))
              (filter (\<lambda>t. \<not> unavailable_target st t) (targets_of data))) \<and>
         (if list_all (unavailable_target st) (targets_of data)
          then handleCallRequest db now stamp rnd sock data st =
                 (st, [(sid sock, call_error Ningun_usuario_esta_disponible)])
          else (\<exists>c out.
                 handleCallRequest db now stamp rnd sock data st =
                   (socket_join sock (room_of (generateCallId stamp rnd))
                      (st\<lparr>activeCalls :=
                            AList.update (generateCallId stamp rnd) c (activeCalls st),
                          userCalls :=
                            AList.update (userId sock) (generateCallId stamp rnd)
                              (userCalls st)\<rparr>), out) \<and>
                 (if has (activeCalls st) (generateCallId stamp rnd)
                  then length (AList.update (generateCallId stamp rnd) c (activeCalls st)) =
                         length (activeCalls st)
                  else AList.update (generateCallId stamp rnd) c (activeCalls st) =
                         activeCalls st @ [(generateCallId stamp rnd, c)]) \<and>
                 callId c = generateCallId stamp rnd \<and> hostId c = userId sock \<and>
                 status c = ''ringing'' \<and>
                 map fst (participants c) = [userId sock] \<and>
                 distinct (pendingInvites c) \<and>
                 set (pendingInvites c) =
                   {t \<in> set (targets_of data). \<not> unavailable_target st t} \<and>
                 (if list_ex (unavailable_target st) (targets_of data)
                  then (sid sock, call_users_unavailable
                          (filter (unavailable_target st) (targets_of data))) \<in> set out
                  else (\<forall>i us. (i, call_users_unavailable us) \<notin> set out))))"
proof -
  let ?ts = "targets_of data"
  let ?un = "filter (unavailable_target st) ?ts"
  let ?av = "map (\<lambda>t. (t, getUserSockets st t)) (filter (\<lambda>t. \<not> unavailable_target st t) ?ts)"
  have cl: "classify st ?ts ([], []) = (?un, ?av)"
    using classify_filter [of st ?ts "[]" "[]"] by simp
  show ?thesis
  proof (cases "list_all (unavailable_target st) ?ts")
    case True
    then have "?av = []" by (simp add: list_all_iff filter_empty_conv)
    with assms True cl show ?thesis
      by (simp add: handleCallRequest_def Let_def socket_emit_def)
  next
    case False
    then have ne: "?av \<noteq> []" by (simp add: list_all_iff filter_empty_conv)
    have fs: "map fst ?av = filter (\<lambda>t. \<not> unavailable_target st t) ?ts"
      by (simp add: comp_def)
    let ?cid = "generateCallId stamp rnd"
    define c where "c = \<lparr>callId = ?cid, hostId = userId sock,
        hostName = getUserName db (userId sock),
        participants = [(userId sock, \<lparr>oderId = userId sock, pstatus = ''connected'',
                                       joinedAt = now\<rparr>)],
        pendingInvites = new_Set (map fst ?av),
        status = ''ringing'', startTime = now, offer = req_offer data,
        callType = or_else (req_callType data) ''audio''\<rparr>"
    define inc where "inc = concat (map (\<lambda>(u, ss). emit_each ss
        (call_incoming ?cid (userId sock) (getUserName db (userId sock)) None
           (length ?ts > 1) (length ?ts + 1) None (req_offer data) (callType c))) ?av)"
    define out where "out = socket_emit sock
          (call_created ?cid ''ringing'' (length ?av) (callType c)) @ inc @
          (if length ?un > 0 then socket_emit sock (call_users_unavailable ?un) else [])"
    have res: "handleCallRequest db now stamp rnd sock data st =
        (socket_join sock (room_of ?cid)
           (st\<lparr>activeCalls := AList.update ?cid c (activeCalls st),
               userCalls := AList.update (userId sock) ?cid (userCalls st)\<rparr>), out)"
      using assms(1) ne
      by (simp add: handleCallRequest_def Let_def cl c_def out_def inc_def)
    have len: "if has (activeCalls st) ?cid
        then length (AList.update ?cid c (activeCalls st)) = length (activeCalls st)
        else AList.update ?cid c (activeCalls st) = activeCalls st @ [(?cid, c)]"
      by (auto simp: has_def update_fresh update_existing_length)
    have fields: "callId c = ?cid" "hostId c = userId sock" "status c = ''ringing''"
      "map fst (participants c) = [userId sock]" "distinct (pendingInvites c)"
      "set (pendingInvites c) = {t \<in> set ?ts. \<not> unavailable_target st t}"
      by (auto simp: c_def fs)
    have noinc: "(i, call_users_unavailable us) \<notin> set inc" for i us
      by (auto simp: inc_def emit_each_def)
    have notice: "if list_ex (unavailable_target st) ?ts
        then (sid sock, call_users_unavailable ?un) \<in> set out
        else (\<forall>i us. (i, call_users_unavailable us) \<notin> set out)"
      using noinc by (auto simp: out_def socket_emit_def list_ex_iff filter_empty_conv)
    from False cl res len fields notice show ?thesis
      by (intro conjI)
        (simp, simp only: if_False, intro exI [of _ c] exI [of _ out] conjI, simp_all)
  qed
qed

text \<open>
  In the scene, user 1 calls users 2 and 4: the session rings user 2 only and the notice
  lists user 4.
\<close>

theorem handleCallRequest_partial_success_witness:
  "\<not> isUserInCall st0 (userId sA) \<and> targets_of (req [2, 4]) \<noteq> [] \<and>
   \<not> list_all (unavailable_target st0) (targets_of (req [2, 4])) \<and>
   (\<exists>c out. handleCallRequest db0 5 ''5'' ''x'' sA (req [2, 4]) st0 =
        (socket_join sA (room_of ''call_5_x'')
           (st0\<lparr>activeCalls := activeCalls st0 @ [(''call_5_x'', c)],
                userCalls := AList.update 1 ''call_5_x'' (userCalls st0)\<rparr>), out) \<and>
      status c = ''ringing'' \<and> map fst (participants c) = [1] \<and>
      set (pendingInvites c) = {2} \<and>
      (''a'', call_users_unavailable [4]) \<in> set out)"
proof -
  have h1: "\<not> isUserInCall st0 (userId sA)"
    by (simp add: st0_eq isUserInCall_def has_def)
  have h2: "targets_of (req [2, 4]) \<noteq> []"
    by (simp add: targets_of_def req_def)
  have u2: "\<not> unavailable_target st0 2" and u4: "unavailable_target st0 4"
    by (simp_all add: unavailable_target_def st0_eq isUserInCall_def has_def
          getUserSockets_def sA_def sB_def sB2_def sC_def)
  have ts: "targets_of (req [2, 4]) = [2, 4]"
    by (simp add: targets_of_def req_def)
  have cid: "generateCallId ''5'' ''x'' = ''call_5_x''"
    by (simp add: generateCallId_def)
  have s: "{t. (t = 2 \<or> t = 4) \<and> \<not> unavailable_target st0 t} = {2}"
    using u2 u4 by auto
  have nl: "\<not> list_all (unavailable_target st0) (targets_of (req [2, 4]))"
    using u2 by (simp add: ts)
  have le: "list_ex (unavailable_target st0) (targets_of (req [2, 4]))"
    using u4 by (simp add: ts)
  have un: "filter (unavailable_target st0) (targets_of (req [2, 4])) = [4]"
    using u2 u4 by (simp add: ts)
  have fresh: "\<not> has (activeCalls st0) ''call_5_x''"
    by (simp add: has_def st0_eq)
  from handleCallRequest_partial_success [OF h1 h2, of db0 5 "''5''" "''x''"] nl
  obtain c out where
    r: "handleCallRequest db0 5 ''5'' ''x'' sA (req [2, 4]) st0 =
          (socket_join sA (room_of ''call_5_x'')
             (st0\<lparr>activeCalls := AList.update ''call_5_x'' c (activeCalls st0),
                  userCalls := AList.update (userId sA) ''call_5_x'' (userCalls st0)\<rparr>), out)"
    and a: "AList.update ''call_5_x'' c (activeCalls st0) = activeCalls st0 @ [(''call_5_x'', c)]"
    and f: "status c = ''ringing''" "map fst (participants c) = [userId sA]"
      "set (pendingInvites c) = {t \<in> set (targets_of (req [2, 4])). \<not> unavailable_target st0 t}"
    and n: "(sid sA, call_users_unavailable [4]) \<in> set out"
    unfolding cid using fresh le un by auto
  have "userId sA = 1" "sid sA = ''a''" by (simp_all add: sA_def)
  with r a f n s have "handleCallRequest db0 5 ''5'' ''x'' sA (req [2, 4]) st0 =
        (socket_join sA (room_of ''call_5_x'')
           (st0\<lparr>activeCalls := activeCalls st0 @ [(''call_5_x'', c)],
                userCalls := AList.update 1 ''call_5_x'' (userCalls st0)\<rparr>), out) \<and>
      status c = ''ringing'' \<and> map fst (participants c) = [1] \<and>
      set (pendingInvites c) = {2} \<and>
      (''a'', call_users_unavailable [4]) \<in> set out"
    by (simp add: ts)
  then have "\<exists>c out. handleCallRequest db0 5 ''5'' ''x'' sA (req [2, 4]) st0 =
        (socket_join sA (room_of ''call_5_x'')
           (st0\<lparr>activeCalls := activeCalls st0 @ [(''call_5_x'', c)],
                userCalls := AList.update 1 ''call_5_x'' (userCalls st0)\<rparr>), out) \<and>
      status c = ''ringing'' \<and> map fst (participants c) = [1] \<and>
      set (pendingInvites c) = {2} \<and>
      (''a'', call_users_unavailable [4]) \<in> set out"
    by (intro exI)
  with h1 h2 nl show ?thesis by (intro conjI)
qed

text \<open>
  C9. A start-call request whose payload carries no array of target user ids is handled
  exactly as the request whose target list is the one-element list holding the payload's
  \<open>targetUserId\<close>: the resulting state and everything sent are the same.
\<close>

theorem handleCallRequest_scalar_target:
  "targetUserIds data = None \<Longrightarrow>
   handleCallRequest db now stamp rnd sock data st =
   handleCallRequest db now stamp rnd sock
     (data\<lparr>targetUserIds := Some [targetUserId data]\<rparr>) st"
  by (simp add: handleCallRequest_def targets_of_def Let_def)

theorem handleCallRequest_scalar_target_witness:
  "targetUserIds \<lparr>targetUserIds = None, targetUserId = 2, req_offer = ''o'',
                  req_callType = None\<rparr> = None \<and>
   handleCallRequest db0 5 ''5'' ''x'' sA
     \<lparr>targetUserIds = None, targetUserId = 2, req_offer = ''o'', req_callType = None\<rparr> st0 =
   handleCallRequest db0 5 ''5'' ''x'' sA
     \<lparr>targetUserIds = Some [2], targetUserId = 2, req_offer = ''o'', req_callType = None\<rparr>
     st0"
  using handleCallRequest_scalar_target
    [of "\<lparr>targetUserIds = None, targetUserId = 2, req_offer = ''o'', req_callType = None\<rparr>"
        db0 5 "''5''" "''x''" sA st0]
  by simp

section \<open>Rejecting, leaving, losing a connection\<close>

text \<open>
  C5. Reject collapse. For a reject-call event that resolves to a session (an entry of the
  registry kept under its own id): when, with the acting user removed from the pending
  invites, the session has exactly one participant and no pending invite, the session is
  terminated with reason rejected: it leaves the registry, the index entries of its
  participants are deleted, and every connected socket of its room gets \<open>call_ended\<close> with
  reason "rejected". Otherwise the session stays in the registry, with the acting user no
  longer among its pending invites and nothing else changed, and no \<open>call_ended\<close> is sent.
\<close>

theorem handleCallReject_collapse:
  assumes "lookupCall st data (userId sock) = Some (k, c)" and "callId c = k"
  shows "case handleCallReject sock data st of (st', out) \<Rightarrow>
     if length (participants c) = 1 \<and> set_delete (userId sock) (pendingInvites c) = []
     then map_of (activeCalls st') k = None \<and>
          list_all (\<lambda>v. map_of (userCalls st') v = None) (map fst (participants c)) \<and>
          list_all (\<lambda>i. (i, call_ended k ''rejected'') \<in> set out) (in_room st (room_of k))
     else map_of (activeCalls st') k =
            Some (c\<lparr>pendingInvites := set_delete (userId sock) (pendingInvites c)\<rparr>) \<and>
          userId sock \<notin> set (set_delete (userId sock) (pendingInvites c)) \<and>
          \<not> list_ex (\<lambda>(i, ev). ev = call_ended k ''rejected'') out"
proof -
  let ?u = "userId sock"
  let ?c' = "c\<lparr>pendingInvites := set_delete ?u (pendingInvites c)\<rparr>"
  let ?st1 = "st\<lparr>activeCalls := AList.update k ?c' (activeCalls st)\<rparr>"
  have m: "map_of (activeCalls ?st1) k = Some ?c'" by (simp add: update_conv')
  show ?thesis
  proof (cases "length (participants c) = 1 \<and> set_delete ?u (pendingInvites c) = []")
    case True
    then show ?thesis
      using assms endCall_Some [OF m, of "''rejected''"]
      by (auto simp: handleCallReject_def Let_def delete_conv' endCall_participants_userCalls
            restr_conv' io_to_emit_def list_all_iff restrict_map_def)
  next
    case False
    then show ?thesis
      using assms
      by (auto simp: handleCallReject_def Let_def update_conv' set_delete_def io_to_emit_def
            list_ex_iff)
  qed
qed

text \<open>In the scene, user 2 rejects the ringing two-party call of user 1.\<close>

theorem handleCallReject_collapse_witness:
  "lookupCall st1 (by_id ''call_5_x'') (userId sB) = Some (''call_5_x'', call1 [2]) \<and>
   callId (call1 [2]) = ''call_5_x'' \<and>
   map_of (activeCalls (fst (handleCallReject sB (by_id ''call_5_x'') st1))) ''call_5_x'' =
     None \<and>
   (''a'', call_ended ''call_5_x'' ''rejected'')
     \<in> set (snd (handleCallReject sB (by_id ''call_5_x'') st1))"
proof -
  have h2: "callId (call1 [2]) = ''call_5_x''" by (simp add: call1_def)
  have c: "length (participants (call1 [2])) = 1 \<and>
      set_delete (userId sB) (pendingInvites (call1 [2])) = []"
    by (simp add: call1_def set_delete_def sB_def)
  from handleCallReject_collapse [OF st1_lookup h2, of sB] c st1_lookup h2
  show ?thesis
    by (simp add: case_prod_unfold st1_room)
qed

text \<open>
  C10. A leave-call event by a user who has no entry in the user-to-call index, or whose
  entry names a call id that is not in the registry, sends nothing to anyone (no error, no
  notification) and leaves the whole state as it was.
\<close>

theorem handleCallEnd_outside_call:
  "map_of (userCalls st) (userId sock) = None \<or>
   (\<exists>cid. map_of (userCalls st) (userId sock) = Some cid \<and>
          map_of (activeCalls st) cid = None)
   \<Longrightarrow> handleCallEnd sock reason st = (st, [])"
  by (auto simp: handleCallEnd_def Let_def)

theorem handleCallEnd_outside_call_witness:
  "map_of (userCalls st0) (userId sC) = None \<and>
   handleCallEnd sC (Some ''bye'') st0 = (st0, [])"
  using handleCallEnd_outside_call [of st0 sC "Some ''bye''"]
  by (simp add: st0_eq)

text \<open>
  Losing a connection, for a user whose index entry names a session of the registry: if
  another socket of the user is still connected, nothing is sent and the state is unchanged.
  If it was the last one, the user's index entry is deleted; and when the user is the host
  of that session or was its only participant, the session leaves the registry, the index
  entries of its participants are deleted and every connected socket of the room gets
  \<open>call_ended\<close> with reason "disconnected"; otherwise the session stays, without the user
  among its participants, and the index loses the user's entry only.
\<close>

lemma handleDisconnection_multi_device:
  assumes "map_of (userCalls st) (userId sock) = Some cid" and "cid \<noteq> []"
    and "map_of (activeCalls st) cid = Some c"
  shows "if list_ex (\<lambda>s. userId s = userId sock \<and> sid s \<noteq> sid sock) (sockets st)
         then handleDisconnection sock st = (st, [])
         else (case handleDisconnection sock st of (st', out) \<Rightarrow>
           map_of (userCalls st') (userId sock) = None \<and>
           (if userId sock = hostId c \<or> AList.delete (userId sock) (participants c) = []
            then map_of (activeCalls st') cid = None \<and>
                 list_all (\<lambda>v. map_of (userCalls st') v = None) (map fst (participants c)) \<and>
                 list_all (\<lambda>i. (i, call_ended cid ''disconnected'') \<in> set out)
                   (in_room st (room_of cid))
            else map_of (activeCalls st') cid =
                   Some (c\<lparr>participants := AList.delete (userId sock) (participants c)\<rparr>) \<and>
                 map_of (AList.delete (userId sock) (participants c)) (userId sock) = None \<and>
                 userCalls st' = AList.delete (userId sock) (userCalls st)))"
proof -
  let ?u = "userId sock"
  let ?c' = "c\<lparr>participants := AList.delete ?u (participants c)\<rparr>"
  let ?st1 = "st\<lparr>activeCalls := AList.update cid ?c' (activeCalls st),
                  userCalls := AList.delete ?u (userCalls st)\<rparr>"
  have m: "map_of (activeCalls ?st1) cid = Some ?c'" by (simp add: update_conv')
  have rem: "(filter (\<lambda>s. sid s \<noteq> sid sock) (getUserSockets st ?u) = []) =
      (\<not> list_ex (\<lambda>s. userId s = ?u \<and> sid s \<noteq> sid sock) (sockets st))"
    by (auto simp: getUserSockets_def filter_empty_conv list_ex_iff)
  show ?thesis
  proof (cases "list_ex (\<lambda>s. userId s = ?u \<and> sid s \<noteq> sid sock) (sockets st)")
    case True
    with assms rem show ?thesis
      by (simp add: handleDisconnection_def Let_def)
  next
    case other: False
    show ?thesis
    proof (cases "?u = hostId c \<or> AList.delete ?u (participants c) = []")
      case True
      then show ?thesis
        using assms other rem endCall_Some [OF m, of "''disconnected''"]
        by (auto simp: handleDisconnection_def Let_def delete_conv'
              endCall_participants_userCalls restr_conv' io_to_emit_def list_all_iff
              restrict_map_def delete_keys)
    next
      case False
      then show ?thesis
        using assms other rem
        by (auto simp: handleDisconnection_def Let_def update_conv' delete_conv')
    qed
  qed
qed

text \<open>
  In the scene, user 2 is in the call and has two connections; losing one of them changes
  nothing. User 1, the host, has one connection; losing it ends the call for both.
\<close>

lemma handleDisconnection_multi_device_example:
  "map_of (userCalls st2) (userId sB) = Some ''call_5_x'' \<and> ''call_5_x'' \<noteq> [] \<and>
   map_of (activeCalls st2) ''call_5_x'' = Some (call2 6) \<and>
   handleDisconnection sB st2 = (st2, []) \<and>
   map_of (userCalls st2) (userId sA) = Some ''call_5_x'' \<and>
   map_of (activeCalls (fst (handleDisconnection sA st2))) ''call_5_x'' = None \<and>
   map_of (userCalls (fst (handleDisconnection sA st2))) (userId sB) = None \<and>
   (''b'', call_ended ''call_5_x'' ''disconnected'') \<in> set (snd (handleDisconnection sA st2))"
proof -
  have ne: "''call_5_x'' \<noteq> []" by simp
  have other: "list_ex (\<lambda>s. userId s = userId sB \<and> sid s \<noteq> sid sB) (sockets st2)"
    by (simp add: st2_eq sA_def sB_def sB2_def sC_def)
  have last: "\<not> list_ex (\<lambda>s. userId s = userId sA \<and> sid s \<noteq> sid sA) (sockets st2)"
    by (simp add: st2_eq sA_def sB_def sB2_def sC_def)
  have host: "userId sA = hostId (call2 6)" by (simp add: sA_def call2_def)
  have ps: "map fst (participants (call2 6)) = [userId sA, userId sB]"
    by (simp add: call2_def sA_def sB_def)
  from handleDisconnection_multi_device [OF st2_user2 ne st2_call] other
  have 1: "handleDisconnection sB st2 = (st2, [])" by simp
  from handleDisconnection_multi_device [OF st2_user1 ne st2_call] last host
  have 2: "map_of (activeCalls (fst (handleDisconnection sA st2))) ''call_5_x'' = None \<and>
     map_of (userCalls (fst (handleDisconnection sA st2))) (userId sB) = None \<and>
     (''b'', call_ended ''call_5_x'' ''disconnected'') \<in> set (snd (handleDisconnection sA st2))"
    by (simp add: case_prod_unfold ps st2_room)
  from 1 2 st2_user2 st2_user1 st2_call ne show ?thesis by simp
qed

text \<open>
  The handler finds the session through the index alone, and an accept overwrites the
  index entry of a user who is already in a call. In the third scene user 1 was invited by
  user 3 and accepted while hosting a ringing call of their own.
\<close>

lemma stT3_history:
  "reachable stT3 \<and>
   isUserInCall stT2 (userId sA) \<and>
   lookupCall stT2 (by_id ''call_5_y'') (userId sA) =
     Some (''call_5_y'', callT [] [1] ''ringing'') \<and>
   userId sA \<in> set (pendingInvites (callT [] [1] ''ringing''))"
  using reachable_stT3 stT2_invited
  by (simp add: stT2_eq isUserInCall_def has_def sA_def)

text \<open>
  C7, at its failing input. In the third scene user 1 is the host and a participant, with
  status connected, of the session "call_6_x", and has one connection. When that connection
  is lost, the handler removes user 1 from the session the index names, "call_5_y", and
  deletes the index entry; the session "call_6_x" stays in the registry with user 1 as its
  host and participant, and no \<open>call_ended\<close> is sent.
\<close>

theorem handleDisconnection_stale_index:
  "reachable stT3 \<and>
   map_of (activeCalls stT3) ''call_6_x'' = Some callH \<and>
   hostId callH = userId sA \<and>
   map_of (participants callH) (userId sA) =
     Some \<lparr>oderId = 1, pstatus = ''connected'', joinedAt = 6\<rparr> \<and>
   map_of (userCalls stT3) (userId sA) = Some ''call_5_y'' \<and>
   filter (\<lambda>s. userId s = userId sA \<and> sid s \<noteq> sid sA) (sockets stT3) = [] \<and>
   handleDisconnection sA stT3 =
     (\<lparr>activeCalls = [(''call_5_y'', callT [] [] ''active''), (''call_6_x'', callH)],
       userCalls = [(3, ''call_5_y'')],
       sockets = [sA, sB, sB2, sC],
       rooms = [(''call_call_5_y'', [''c'', ''a'']), (''call_call_6_x'', [''a''])]\<rparr>,
      [(''c'', call_participant_left ''call_5_y'' 1 None 1 (Some ''disconnected'')),
       (''a'', call_participant_left ''call_5_y'' 1 None 1 (Some ''disconnected''))])"
proof -
  have "map_of (activeCalls stT3) ''call_6_x'' = Some callH \<and>
   hostId callH = userId sA \<and>
   map_of (participants callH) (userId sA) =
     Some \<lparr>oderId = 1, pstatus = ''connected'', joinedAt = 6\<rparr> \<and>
   map_of (userCalls stT3) (userId sA) = Some ''call_5_y'' \<and>
   filter (\<lambda>s. userId s = userId sA \<and> sid s \<noteq> sid sA) (sockets stT3) = [] \<and>
   handleDisconnection sA stT3 =
     (\<lparr>activeCalls = [(''call_5_y'', callT [] [] ''active''), (''call_6_x'', callH)],
       userCalls = [(3, ''call_5_y'')],
       sockets = [sA, sB, sB2, sC],
       rooms = [(''call_call_5_y'', [''c'', ''a'']), (''call_call_6_x'', [''a''])]\<rparr>,
      [(''c'', call_participant_left ''call_5_y'' 1 None 1 (Some ''disconnected'')),
       (''a'', call_participant_left ''call_5_y'' 1 None 1 (Some ''disconnected''))])"
    by (simp add: stT3_eq callT_def callH_def handleDisconnection_def Let_def
        getUserSockets_def io_to_emit_def in_room_def room_of_def sA_def sB_def sB2_def
        sC_def)
  with reachable_stT3 show ?thesis by (intro conjI) simp_all
qed

theorem handleDisconnection_stale_index_witness:
  "map_of (activeCalls (fst (handleDisconnection sA stT3))) ''call_6_x'' = Some callH \<and>
   has (participants callH) 1 \<and>
   \<not> list_ex (\<lambda>(i, ev). ev = call_ended ''call_6_x'' ''disconnected'')
       (snd (handleDisconnection sA stT3))"
  using handleDisconnection_stale_index by (simp add: has_def callH_def)

section \<open>Validation\<close>

lemma request_fails_closed:
  "fails_closed st sock (request_rejection st sock data)
     (handleCallRequest db now stamp rnd sock data st)"
proof -
  have cl: "classify st (targets_of data) ([], []) =
     (filter (unavailable_target st) (targets_of data),
      map (\<lambda>t. (t, getUserSockets st t))
        (filter (\<lambda>t. \<not> unavailable_target st t) (targets_of data)))"
    using classify_filter [of st "targets_of data" "[]" "[]"] by simp
  show ?thesis
    by (auto simp: fails_closed_def request_rejection_def handleCallRequest_def Let_def cl
          socket_emit_def emit_each_def list_ex_iff list_all_iff filter_empty_conv)
qed

lemma accept_fails_closed:
  "fails_closed st sock (accept_rejection st sock data) (handleCallAccept db now sock data st)"
  by (auto simp: fails_closed_def accept_rejection_def handleCallAccept_def Let_def
        socket_emit_def io_to_emit_def list_ex_iff)

lemma add_fails_closed:
  "fails_closed st sock (add_rejection st sock data) (handleAddParticipant db sock data st)"
  by (auto simp: fails_closed_def add_rejection_def handleAddParticipant_def Let_def has_def
        socket_emit_def io_to_emit_def emit_each_def list_ex_iff split: option.splits)

lemma chat_fails_closed:
  "fails_closed st sock (chat_rejection st sock data) (handleCallChatMessage now sock data st)"
  by (auto simp: fails_closed_def chat_rejection_def handleCallChatMessage_def Let_def
        truthy_def socket_emit_def socket_to_emit_def list_ex_iff split: option.splits)

text \<open>
  C8. Fail-closed validation. For the four validated events (start-call, accept-call,
  add-participant, send-call-chat): when a validation check rejects the event (initiator
  already in a call, no eligible target, session not found, actor not a participant, target
  already present or invited, target in another call, target unreachable, sender not in the
  named call), the handler's whole output is one \<open>call_error\<close> addressed to the initiating
  socket and the state it returns is the state it was given, registry, sessions, index and
  rooms alike; and when no check rejects the event, no \<open>call_error\<close> is sent at all.
\<close>

theorem validation_fails_closed:
  "fails_closed st sock (request_rejection st sock rq)
     (handleCallRequest db now stamp rnd sock rq st) \<and>
   fails_closed st sock (accept_rejection st sock rf) (handleCallAccept db now sock rf st) \<and>
   fails_closed st sock (add_rejection st sock ad) (handleAddParticipant db sock ad st) \<and>
   fails_closed st sock (chat_rejection st sock ch) (handleCallChatMessage now sock ch st)"
  using request_fails_closed accept_fails_closed add_fails_closed chat_fails_closed
  by simp

text \<open>In the scene, user 1, already in the call, asks for another one.\<close>

theorem validation_fails_closed_witness:
  "request_rejection st1 sA (req [3]) = Some Ya_estas_en_una_llamada \<and>
   handleCallRequest db0 8 ''8'' ''y'' sA (req [3]) st1 =
     (st1, [(sid sA, call_error Ya_estas_en_una_llamada)])"
  using validation_fails_closed [of st1 sA "req [3]" db0 8 "''8''" "''y''"] st1_user1
  by (simp add: fails_closed_def request_rejection_def)

section \<open>Chat in a call\<close>

text \<open>
  What the handler does with a chat message. A sender whose index entry is absent or names
  another call gets the error on the sending socket, and nothing else is sent. When the entry
  names the call and the call is in the registry, the state is unchanged and the message goes
  to the connected sockets that are members of the call's room, the sending socket excepted,
  and to no other socket. (When the entry names the call and the call is not in the
  registry, nothing is sent.)
\<close>

lemma handleCallChatMessage_routing:
  "(if map_of (userCalls st) (userId sock) = Some (chat_callId data) \<and> chat_callId data \<noteq> []
    then (case map_of (activeCalls st) (chat_callId data) of
            None \<Rightarrow> handleCallChatMessage now sock data st = (st, [])
          | Some c \<Rightarrow>
              fst (handleCallChatMessage now sock data st) = st \<and>
              map fst (snd (handleCallChatMessage now sock data st)) =
                filter (\<lambda>i. i \<noteq> sid sock) (in_room st (room_of (chat_callId data))) \<and>
              list_all (\<lambda>(i, ev). i \<noteq> sid sock \<and>
                  ev = call_chat_message (chat_callId data) (userId sock)
                         (or_else (chat_senderName data) ''Usuario'') (chat_content data) now)
                (snd (handleCallChatMessage now sock data st)))
    else handleCallChatMessage now sock data st =
           (st, [(sid sock, call_error No_estas_en_esta_llamada)]))"
  by (auto simp: handleCallChatMessage_def Let_def truthy_def socket_emit_def
        socket_to_emit_def list_all_iff comp_def split: option.splits)

text \<open>In the scene, user 2 writes from the device that joined: the host's socket gets it.\<close>

lemma handleCallChatMessage_routing_example:
  "map_of (userCalls st2) (userId sB) = Some ''call_5_x'' \<and>
   map_of (activeCalls st2) ''call_5_x'' = Some (call2 6) \<and>
   fst (handleCallChatMessage 9 sB hi st2) = st2 \<and>
   map fst (snd (handleCallChatMessage 9 sB hi st2)) = [''a'']"
proof -
  have h: "chat_callId hi = ''call_5_x''" by (simp add: hi_def)
  from handleCallChatMessage_routing [of st2 sB hi 9] st2_user2 st2_call
  show ?thesis by (simp add: st2_room h sB_def)
qed

text \<open>
  C6, at its failing input. In the scene user 1 has called user 2, and user 2 has accepted
  on the device with socket "b"; the other device of user 2, socket "b2", is connected.
  User 1, a confirmed participant, sends a chat message: the handler delivers it to socket
  "b" only. Socket "b2", a connection of the other confirmed participant, gets nothing: only
  the socket that accepted has joined the room.
\<close>

theorem handleCallChatMessage_skips_device:
  "reachable st2 \<and>
   map_of (userCalls st2) (userId sA) = Some ''call_5_x'' \<and>
   map_of (activeCalls st2) ''call_5_x'' = Some (call2 6) \<and>
   map_of (participants (call2 6)) (userId sB2) =
     Some \<lparr>oderId = 2, pstatus = ''connecting'', joinedAt = 6\<rparr> \<and>
   sB2 \<in> set (sockets st2) \<and> userId sB2 \<noteq> userId sA \<and>
   handleCallChatMessage 9 sA hi st2 =
     (st2, [(''b'', call_chat_message ''call_5_x'' 1 ''Usuario'' ''hi'' 9)])"
proof -
  have "map_of (userCalls st2) (userId sA) = Some ''call_5_x'' \<and>
   map_of (activeCalls st2) ''call_5_x'' = Some (call2 6) \<and>
   map_of (participants (call2 6)) (userId sB2) =
     Some \<lparr>oderId = 2, pstatus = ''connecting'', joinedAt = 6\<rparr> \<and>
   sB2 \<in> set (sockets st2) \<and> userId sB2 \<noteq> userId sA \<and>
   handleCallChatMessage 9 sA hi st2 =
     (st2, [(''b'', call_chat_message ''call_5_x'' 1 ''Usuario'' ''hi'' 9)])"
    by (simp add: st2_eq call2_def handleCallChatMessage_def Let_def truthy_def hi_def
        socket_to_emit_def in_room_def room_of_def or_else_def sA_def sB_def sB2_def sC_def)
  with reachable_st2 show ?thesis by (intro conjI) simp_all
qed

theorem handleCallChatMessage_skips_device_witness:
  "sid sB2 \<notin> set (map fst (snd (handleCallChatMessage 9 sA hi st2)))"
  using handleCallChatMessage_skips_device by (simp add: sB2_def)

text \<open>
  The other clause fails as well. When user 2 has accepted on both devices (the second
  accept is one by a user who is no longer a pending invitee), both sockets are in the room,
  and a chat message sent from the first device is delivered to the second, a connection of
  the sender.
\<close>

lemma handleCallChatMessage_reaches_own_device:
  "sB2 \<in> set (sockets st3) \<and> userId sB2 = userId sB \<and> sid sB2 \<noteq> sid sB \<and>
   map_of (userCalls st3) (userId sB) = Some ''call_5_x'' \<and>
   map_of (activeCalls st3) ''call_5_x'' = Some (call2 7) \<and>
   has (participants (call2 7)) (userId sB) \<and>
   (sid sB2, call_chat_message ''call_5_x'' (userId sB) ''Usuario'' ''hi'' 9)
     \<in> set (snd (handleCallChatMessage 9 sB hi st3))"
  by (simp add: st3_eq call2_def has_def handleCallChatMessage_def Let_def truthy_def hi_def
      socket_to_emit_def in_room_def room_of_def or_else_def sA_def sB_def sB2_def sC_def)

section \<open>Accepting without an invitation\<close>

text \<open>
  C3, at its failing input. In the scene the call of user 1 rings user 2 only. User 3, who
  is not among the pending invites, accepts it by its call id: the lookup by id resolves
  the session, and the handler makes user 3 a participant with status connecting, records
  the session in the index for user 3 and sets the session active.
\<close>

theorem handleCallAccept_without_invite:
  "lookupCall st1 (by_id ''call_5_x'') (userId sC) = Some (''call_5_x'', call1 [2]) \<and>
   userId sC \<notin> set (pendingInvites (call1 [2])) \<and>
   fst (handleCallAccept db0 6 sC (by_id ''call_5_x'') st1) =
     \<lparr>activeCalls =
        [(''call_5_x'',
          \<lparr>callId = ''call_5_x'', hostId = 1, hostName = ''Usuario'',
            participants = [(1, \<lparr>oderId = 1, pstatus = ''connected'', joinedAt = 5\<rparr>),
                            (3, \<lparr>oderId = 3, pstatus = ''connecting'', joinedAt = 6\<rparr>)],
            pendingInvites = [2], status = ''active'', startTime = 5, offer = ''o'',
            callType = ''audio''\<rparr>)],
      userCalls = [(1, ''call_5_x''), (3, ''call_5_x'')],
      sockets = [sA, sB, sB2, sC],
      rooms = [(''call_call_5_x'', [''a'', ''c''])]\<rparr>"
  by (simp add: st1_eq handleCallAccept_def lookupCall_def by_id_def truthy_def Let_def
      call1_def set_delete_def socket_join_def room_of_def set_add_def sC_def)

theorem handleCallAccept_without_invite_witness:
  "map_of (userCalls (fst (handleCallAccept db0 6 sC (by_id ''call_5_x'') st1))) 3 =
     Some ''call_5_x''"
  using handleCallAccept_without_invite by simp

section \<open>Inviting oneself\<close>

text \<open>
  C2, at its failing input. User 1, not in a call and connected, starts a call whose target
  list holds user 1 and user 2. The session that is created has user 1 both as its
  participant and among its pending invites: it is not disjoint.
\<close>

theorem handleCallRequest_self_invite:
  "userId sA \<in> set (targets_of (req [1, 2])) \<and>
   activeCalls (fst (handleCallRequest db0 5 ''5'' ''x'' sA (req [1, 2]) st0)) =
     [(''call_5_x'', call1 [1, 2])] \<and>
   \<not> disjoint (call1 [1, 2])"
  by (simp add: call1_def disjoint_def handleCallRequest_def targets_of_def isUserInCall_def
      has_def getUserSockets_def generateCallId_def room_of_def socket_join_def new_Set_def
      set_add_def or_else_def Let_def st0_eq sA_def sB_def sB2_def sC_def db0_def req_def)

theorem handleCallRequest_self_invite_witness:
  "\<not> list_all disjoint
       (map snd (activeCalls (fst (handleCallRequest db0 5 ''5'' ''x'' sA (req [1, 2]) st0))))"
  using handleCallRequest_self_invite by simp

section \<open>Single occupancy\<close>

text \<open>
  What the hypotheses of C5 and of the lemma on losing a connection ask of a state holds
  in every reachable state: a session that the lookup resolves is stored under its own id,
  and an index entry names a non-empty id that is a key of the registry.
\<close>

lemma reachable_lookupCall:
  assumes "reachable st" and "lookupCall st d u = Some (k, c)"
  shows "callId c = k \<and> k \<noteq> [] \<and> map_of (activeCalls st) k = Some c"
proof -
  from assms(1) have inv: "call_inv st" by (rule call_inv_reachable)
  then have d: "distinct (map fst (activeCalls st))" by (simp add: call_inv_iff)
  from lookupCall_Some [OF d assms(2)] inv show ?thesis
    by (auto simp: call_inv_def dest: registry_okD)
qed

lemma reachable_index:
  assumes "reachable st" and "map_of (userCalls st) u = Some cid"
  shows "cid \<noteq> [] \<and> (\<exists>c. map_of (activeCalls st) cid = Some c \<and> has (participants c) u)"
proof -
  from assms(1) have "call_inv st" by (rule call_inv_reachable)
  then have ok: "idx_ok (map_of (activeCalls st)) (map_of (userCalls st))"
    by (simp add: call_inv_iff)
  from idx_ok_occ [OF ok assms(2)] idx_ok_key [OF ok] show ?thesis
    by (auto simp: has_def)
qed

text \<open>
  C1. Single occupancy. In every state the handler can reach (call request, accept, answer,
  add-participant, reject, leave, chat, disconnect, in any order and with any payloads,
  call ids being fresh when drawn), the user-to-call index has at most one entry per user,
  and every entry names a session that is in the registry and has the user among its
  participants with status connecting or connected. In particular this holds again after an
  accept-call event by a user who already has an index entry.
\<close>

theorem single_occupancy_reachable:
  assumes "reachable st"
  shows "single_occupancy st \<and>
         (isUserInCall st (userId sock) \<longrightarrow>
            single_occupancy (fst (handleCallAccept db now sock rf st)))"
proof -
  from assms have "reachable (fst (handleCallAccept db now sock rf st))" by (rule r_accept)
  with assms show ?thesis
    by (auto dest!: call_inv_reachable simp: call_inv_def)
qed

text \<open>
  In the second scene user 2, already in the call of user 1, accepts the call of user 3.
\<close>

theorem single_occupancy_reachable_witness:
  "reachable stYX \<and> isUserInCall stYX (userId sB) \<and> single_occupancy stYX \<and>
   single_occupancy (fst (handleCallAccept db0 8 sB (by_id ''call_6_y'') stYX))"
proof -
  have "isUserInCall stYX (userId sB)"
    by (simp add: stYX_eq isUserInCall_def has_def sB_def)
  with single_occupancy_reachable [OF reachable_stYX, of sB db0 8 "by_id ''call_6_y''"]
    reachable_stYX
  show ?thesis by simp
qed

text \<open>
  The converse is not part of C1 and does not hold: after that accept user 2 is a
  participant of both sessions, and the index names the second one only.
\<close>

lemma two_sessions_example:
  "activeCalls (fst (handleCallAccept db0 8 sB (by_id ''call_6_y'') stYX)) =
     [(''call_5_x'', call2 7),
      (''call_6_y'', callY [(2, \<lparr>oderId = 2, pstatus = ''connecting'', joinedAt = 8\<rparr>)] []
                       ''active'')] \<and>
   userCalls (fst (handleCallAccept db0 8 sB (by_id ''call_6_y'') stYX)) =
     [(1, ''call_5_x''), (3, ''call_6_y''), (2, ''call_6_y'')] \<and>
   has (participants (call2 7)) 2"
  by (simp add: stYX_eq callY_def call2_def handleCallAccept_def lookupCall_def
      by_id_def truthy_def set_delete_def Let_def socket_join_def room_of_def set_add_def
      sB_def has_def)

end
